theory Spec2Isabelle
  imports Complex_Main "HOL-Library.Sublist"
begin

section \<open>Exceptions\<close>

text \<open>
  Every exception of the program is a subclass of Python's \<open>Exception\<close>; one constructor
  per kind that the modelled code can meet, each carrying its message. \<open>str_of\<close> is
  \<open>str(e)\<close>.
\<close>

datatype exn =
    QuotaError string
  | TransientError string
  | NavigationError string
  | ValueError string
  | KeyError string
  | TypeError string
  | AttributeError string
  | OverflowError string

fun str_of :: "exn \<Rightarrow> string" where
  "str_of (QuotaError m) = m"
| "str_of (TransientError m) = m"
| "str_of (NavigationError m) = m"
| "str_of (ValueError m) = m"
| "str_of (KeyError m) = m"
| "str_of (TypeError m) = m"
| "str_of (AttributeError m) = m"
| "str_of (OverflowError m) = m"

section \<open>Strings\<close>

text \<open>
  A \<open>char\<close> stands for one character of a Python \<open>str\<close>, and texts are ASCII:
  \<open>lower\<close> is \<open>str.lower\<close> on the ASCII letters, \<open>is_space\<close> below the ASCII white
  space; \<open>str_in kw s\<close> is \<open>kw in s\<close>, \<open>any_kw\<close> is
  \<open>any(kw in s for kw in keywords)\<close>, \<open>join_sp\<close> is \<open>" ".join\<close>.
\<close>

definition lower_char :: "char \<Rightarrow> char" where
  "lower_char c =
     (case map_of (zip ''ABCDEFGHIJKLMNOPQRSTUVWXYZ'' ''abcdefghijklmnopqrstuvwxyz'') c of
        Some l \<Rightarrow> l
      | None \<Rightarrow> c)"

definition lower :: "string \<Rightarrow> string" where
  "lower s = map lower_char s"

fun str_in :: "string \<Rightarrow> string \<Rightarrow> bool" where
  "str_in kw [] = (kw = [])"
| "str_in kw (c # cs) = (take (length kw) (c # cs) = kw \<or> str_in kw cs)"

definition any_kw :: "string list \<Rightarrow> string \<Rightarrow> bool" where
  "any_kw keywords s = list_ex (\<lambda>kw. str_in kw s) keywords"

fun join_sp :: "string list \<Rightarrow> string" where
  "join_sp [] = []"
| "join_sp [s] = s"
| "join_sp (s # t # ss) = s @ '' '' @ join_sp (t # ss)"

section \<open>Categories\<close>

definition CATEGORY_LIST :: "string list" where
  "CATEGORY_LIST =
     [''About Us'', ''Products & Services'', ''Leadership/Team'',
      ''Blog/News/Press Release'', ''Contact/Support'',
      ''Privacy/Legal'', ''Careers/Jobs'', ''Other'']"

definition CATEGORY_KEYWORDS :: "(string \<times> string list) list" where
  "CATEGORY_KEYWORDS =
     [(''About Us'', [''about us'', ''our story'', ''who we are'']),
      (''Products & Services'', [''product'', ''service'', ''solution'']),
      (''Leadership/Team'', [''our team'', ''leadership'', ''ceo'', ''founder'']),
      (''Blog/News/Press Release'', [''blog'', ''news'', ''press'']),
      (''Contact/Support'', [''contact'', ''support'', ''help'', ''reach'']),
      (''Privacy/Legal'', [''privacy'', ''terms'', ''policy'']),
      (''Careers/Jobs'', [''career'', ''job'', ''hiring'']),
      (''Other'', [])]"

section \<open>RateLimitHandler\<close>

text \<open>
  Times are seconds on the real line: a \<open>datetime\<close> is its distance from a fixed
  origin, a \<open>timedelta\<close> and a sleep duration are real numbers of seconds.
\<close>

record throttle =
  max_requests_per_minute :: int
  requests_timestamps :: "real list"
  quota_exceeded :: bool
  quota_reset_time :: "real option"
  max_backoff :: real
  error_count :: nat

definition new_throttle :: "int \<Rightarrow> real \<Rightarrow> throttle" where
  "new_throttle cap mb =
     \<lparr>max_requests_per_minute = cap, requests_timestamps = [], quota_exceeded = False,
      quota_reset_time = None, max_backoff = mb, error_count = 0\<rparr>"

text \<open>
  \<open>wait_if_needed now th\<close>, where \<open>now\<close> is the one reading of the clock the method
  makes: the durations passed to \<open>asyncio.sleep\<close> in order, the exception that ends the
  call if any (\<open>min\<close> of an empty list), and the handler afterwards.
\<close>

definition cooldown_step :: "real \<Rightarrow> throttle \<Rightarrow> real list \<times> throttle" where
  "cooldown_step now th =
     (case quota_reset_time th of
        None \<Rightarrow> ([], th)
      | Some reset \<Rightarrow>
          if quota_exceeded th then
            (if now < reset then ([reset - now], th)
             else ([], th\<lparr>quota_exceeded := False, quota_reset_time := None\<rparr>))
          else ([], th))"

definition wait_if_needed :: "real \<Rightarrow> throttle \<Rightarrow> real list \<times> exn option \<times> throttle" where
  "wait_if_needed now th =
     (let (s1, th1) = cooldown_step now th;
          cutoff = now - 60;
          ts = filter (\<lambda>t. t > cutoff) (requests_timestamps th1);
          th2 = th1\<lparr>requests_timestamps := ts\<rparr>
      in if int (length ts) \<ge> max_requests_per_minute th2 then
           (if ts = [] then (s1, Some (ValueError ''min() arg is an empty sequence''), th2)
            else
              let oldest = min_list ts;
                  wait_time = 60 - (now - oldest)
              in if wait_time > 0 then (s1 @ [wait_time], None, th2) else (s1, None, th2))
         else (s1, None, th2))"

definition reset_backoff :: "throttle \<Rightarrow> throttle" where
  "reset_backoff th = th\<lparr>error_count := 0\<rparr>"

definition record_request :: "real \<Rightarrow> throttle \<Rightarrow> throttle" where
  "record_request now th =
     reset_backoff (th\<lparr>requests_timestamps := requests_timestamps th @ [now]\<rparr>)"

text \<open>
  \<open>retry_delay_seconds if retry_delay_seconds else 3600\<close>: the hint is used when it is
  given and truthy, so neither \<open>None\<close> nor \<open>0\<close>.
\<close>

definition handle_quota_error :: "real \<Rightarrow> real option \<Rightarrow> throttle \<Rightarrow> throttle" where
  "handle_quota_error now retry_delay_seconds th =
     th\<lparr>quota_exceeded := True,
        quota_reset_time :=
          Some (now + (case retry_delay_seconds of
                         None \<Rightarrow> 3600
                       | Some d \<Rightarrow> if d = 0 then 3600 else d))\<rparr>"

text \<open>
  \<open>backoff\<close> with the draw \<open>u\<close> of \<open>random.uniform(0, 1)\<close>. The delay is
  \<open>min(2 ** self.error_count + u, self.max_backoff)\<close>: the power is an integer, and adding
  the float \<open>u\<close> converts it to a float, which raises \<open>OverflowError\<close> from
  \<open>2 ** 1024\<close> on. Below that the delay is a real number (the rounding of floating point
  is not modelled); the method sleeps for it and then increments the error count. When the
  addition raises, nothing is slept and the count stays.
\<close>

definition backoff_delay :: "throttle \<Rightarrow> real \<Rightarrow> exn + real" where
  "backoff_delay th u =
     (if 1024 \<le> error_count th then Inl (OverflowError ''int too large to convert to float'')
      else Inr (min (2 ^ error_count th + u) (max_backoff th)))"

definition backoff :: "real \<Rightarrow> throttle \<Rightarrow> exn + real \<times> throttle" where
  "backoff u th =
     (case backoff_delay th u of
        Inl e \<Rightarrow> Inl e
      | Inr delay \<Rightarrow> Inr (delay, th\<lparr>error_count := error_count th + 1\<rparr>))"

section \<open>JSON values and the category table\<close>

datatype json =
    JNull
  | JBool bool
  | JInt int
  | JFloat real
  | JStr string
  | JArr "json list"
  | JObj "(string \<times> json) list"

definition quoted :: "string \<Rightarrow> string" where
  "quoted s = [CHR 0x27] @ s @ [CHR 0x27]"

text \<open>
  \<open>CATEGORY_KEYWORDS.get(category, [])\<close>. The category comes out of the decoded model
  response, so it is any JSON value: a list or a dict is unhashable and the lookup raises,
  any other value that is not a key of the table gives the empty list.
\<close>

fun category_keywords :: "json \<Rightarrow> exn + string list" where
  "category_keywords (JStr c) =
     Inr (case map_of CATEGORY_KEYWORDS c of Some kws \<Rightarrow> kws | None \<Rightarrow> [])"
| "category_keywords (JArr _) = Inl (TypeError (''unhashable type: '' @ quoted ''list''))"
| "category_keywords (JObj _) = Inl (TypeError (''unhashable type: '' @ quoted ''dict''))"
| "category_keywords _ = Inr []"

section \<open>extract_snippet\<close>

text \<open>
  What the method reads of the parsed markup: the \<open>h1\<close>/\<open>h2\<close>/\<open>h3\<close> elements in
  document order, each with its own text and the texts of all the \<open>p\<close>/\<open>div\<close>
  elements after it (\<open>find_all_next\<close>; the method takes the first three); the text of
  the first \<open>article\<close> and of the first \<open>main\<close> element if there is one; the text of the
  first \<open>div\<close> of a class. All texts are \<open>get_text(" ", strip=True)\<close>.
\<close>

record soup =
  headings :: "(string \<times> string list) list"
  article :: "string option"
  main_el :: "string option"
  div_class :: "string \<Rightarrow> string option"

fun div_tier :: "soup \<Rightarrow> string list \<Rightarrow> string list \<Rightarrow> string" where
  "div_tier sp keywords [] = []"
| "div_tier sp keywords (cls # rest) =
     (case div_class sp cls of
        Some t \<Rightarrow> if any_kw keywords (lower t) then take 500 t else div_tier sp keywords rest
      | None \<Rightarrow> div_tier sp keywords rest)"

definition content_classes :: "string list" where
  "content_classes = [''post-content'', ''entry-content'', ''article-body'', ''content'']"

definition main_tier :: "soup \<Rightarrow> string list \<Rightarrow> string" where
  "main_tier sp keywords =
     (let fallback = div_tier sp keywords content_classes
      in case main_el sp of
           Some t \<Rightarrow> if any_kw keywords (lower t) then take 500 t else fallback
         | None \<Rightarrow> fallback)"

definition article_tier :: "soup \<Rightarrow> string list \<Rightarrow> string" where
  "article_tier sp keywords =
     (case article sp of
        Some t \<Rightarrow> if any_kw keywords (lower t) then take 500 t else main_tier sp keywords
      | None \<Rightarrow> main_tier sp keywords)"

fun heading_tier :: "soup \<Rightarrow> string list \<Rightarrow> (string \<times> string list) list \<Rightarrow> string" where
  "heading_tier sp keywords [] = article_tier sp keywords"
| "heading_tier sp keywords ((heading_text, following) # rest) =
     (if any_kw keywords (lower heading_text) then take 500 (join_sp (take 3 following))
      else heading_tier sp keywords rest)"

definition extract_snippet :: "(string \<Rightarrow> soup) \<Rightarrow> string \<Rightarrow> json \<Rightarrow> exn + string" where
  "extract_snippet parse html category =
     (let sp = parse html
      in case category_keywords category of
           Inl e \<Rightarrow> Inl e
         | Inr keywords \<Rightarrow> Inr (heading_tier sp keywords (headings sp)))"

section \<open>associate_links\<close>

text \<open>
  An anchor handle answers two queries, each of which may raise. \<open>urljoin\<close> and
  \<open>urlparse(\<dots>).netloc\<close> belong to the standard library and are parameters; both may
  raise \<open>ValueError\<close>.
\<close>

record anchor =
  get_href :: "exn + string option"
  inner_text :: "exn + string"

record urllib =
  urljoin :: "string \<Rightarrow> string \<Rightarrow> exn + string"
  netloc :: "string \<Rightarrow> exn + string"
  scheme :: "string \<Rightarrow> exn + string"

fun anchors_loop ::
  "urllib \<Rightarrow> string \<Rightarrow> string \<Rightarrow> string list \<Rightarrow> anchor list \<Rightarrow> string list \<Rightarrow> exn + string list"
where
  "anchors_loop U base_url domain keywords [] matches = Inr matches"
| "anchors_loop U base_url domain keywords (a # rest) matches =
     (case get_href a of
        Inl e \<Rightarrow> Inl e
      | Inr href \<Rightarrow>
     (case inner_text a of
        Inl e \<Rightarrow> Inl e
      | Inr t \<Rightarrow>
     (case href of
        None \<Rightarrow> anchors_loop U base_url domain keywords rest matches
      | Some h \<Rightarrow>
          if h = [] then anchors_loop U base_url domain keywords rest matches
          else
     (case urljoin U base_url h of
        Inl e \<Rightarrow> Inl e
      | Inr abs_url \<Rightarrow>
     (case netloc U abs_url of
        Inl e \<Rightarrow> Inl e
      | Inr nl \<Rightarrow>
          if nl \<noteq> [] \<and> nl \<noteq> domain
          then anchors_loop U base_url domain keywords rest matches
          else if any_kw keywords (lower h @ '' '' @ lower t)
          then anchors_loop U base_url domain keywords rest (matches @ [abs_url])
          else anchors_loop U base_url domain keywords rest matches)))))"

text \<open>\<open>list(dict.fromkeys(matches))\<close>: the first occurrence of each element, in order.\<close>

fun fromkeys :: "'a list \<Rightarrow> 'a list \<Rightarrow> 'a list" where
  "fromkeys seen [] = []"
| "fromkeys seen (x # xs) =
     (if x \<in> set seen then fromkeys seen xs else x # fromkeys (x # seen) xs)"

definition collect_matches ::
  "urllib \<Rightarrow> (exn + anchor list) \<Rightarrow> string \<Rightarrow> json \<Rightarrow> exn + string list" where
  "collect_matches U anchors base_url category =
     (case anchors of
        Inl e \<Rightarrow> Inl e
      | Inr as \<Rightarrow>
     (case netloc U base_url of
        Inl e \<Rightarrow> Inl e
      | Inr domain \<Rightarrow>
     (case category_keywords category of
        Inl e \<Rightarrow> Inl e
      | Inr keywords \<Rightarrow> anchors_loop U base_url domain keywords as [])))"

definition associate_links ::
  "urllib \<Rightarrow> (exn + anchor list) \<Rightarrow> string \<Rightarrow> json \<Rightarrow> string list" where
  "associate_links U anchors base_url category =
     (case collect_matches U anchors base_url category of
        Inl e \<Rightarrow> []
      | Inr matches \<Rightarrow> take 5 (fromkeys [] matches))"

section \<open>The classification calls\<close>

text \<open>
  The collaborators are oracles. \<open>llm_invoke n prompt\<close> is the \<open>n\<close>-th call of
  \<open>self.llm.invoke\<close>: how long it takes, and the response text or the exception it
  raises. \<open>uniform01 n\<close> is the \<open>n\<close>-th draw of \<open>random.uniform(0, 1)\<close>.
  \<open>loads_array\<close> and \<open>loads_object\<close> are \<open>json.loads\<close> on a text that starts with a
  bracket, which decodes to a list, and on one that starts with a brace, which decodes to
  a dict, given by its items with distinct keys; both may raise.
\<close>

record inference =
  llm_invoke :: "nat \<Rightarrow> string \<Rightarrow> real \<times> (exn + string)"
  uniform01 :: "nat \<Rightarrow> real"
  loads_array :: "string \<Rightarrow> exn + json list"
  loads_object :: "string \<Rightarrow> exn + (string \<times> json) list"

datatype event = Wait | Invoke | Record | Backoff

text \<open>
  The state of a run: the clock, the one rate limiter, how many inference calls and
  random draws were made, the calls on the limiter and the model in order, every duration
  passed to \<open>asyncio.sleep\<close>, and the number of page handles opened and not closed.
\<close>

record world =
  clock :: real
  rate_limiter :: throttle
  llm_calls :: nat
  draws :: nat
  calls :: "event list"
  slept :: "real list"
  open_pages :: nat

text \<open>\<open>asyncio.sleep(d)\<close> returns at once when \<open>d\<close> is not positive.\<close>

definition sleep :: "real \<Rightarrow> world \<Rightarrow> world" where
  "sleep d w = w\<lparr>clock := clock w + max d 0, slept := slept w @ [d]\<rparr>"

definition await_slot :: "world \<Rightarrow> exn option \<times> world" where
  "await_slot w =
     (let (ds, err, th) = wait_if_needed (clock w) (rate_limiter w);
          w1 = w\<lparr>rate_limiter := th, calls := calls w @ [Wait]\<rparr>
      in (err, foldl (\<lambda>v d. sleep d v) w1 ds))"

definition invoke :: "inference \<Rightarrow> string \<Rightarrow> world \<Rightarrow> (exn + string) \<times> world" where
  "invoke I prompt w =
     (let (latency, outcome) = llm_invoke I (llm_calls w) prompt
      in (outcome,
          w\<lparr>llm_calls := llm_calls w + 1, clock := clock w + latency,
            calls := calls w @ [Invoke]\<rparr>))"

definition record_success :: "world \<Rightarrow> world" where
  "record_success w =
     w\<lparr>rate_limiter := record_request (clock w) (rate_limiter w),
       calls := calls w @ [Record]\<rparr>"

text \<open>
  The call of \<open>backoff\<close> in an except branch: the draw is made before the addition can
  raise, and an exception raised here leaves the method.
\<close>

definition back_off :: "inference \<Rightarrow> world \<Rightarrow> exn option \<times> world" where
  "back_off I w =
     (let w1 = w\<lparr>draws := draws w + 1, calls := calls w @ [Backoff]\<rparr>
      in case backoff (uniform01 I (draws w)) (rate_limiter w) of
           Inl e \<Rightarrow> (Some e, w1)
         | Inr (delay, th) \<Rightarrow> (None, sleep delay (w1\<lparr>rate_limiter := th\<rparr>)))"

text \<open>
  \<open>str.strip\<close>, and \<open>re.search\<close> of an opening character, anything, a closing character
  with \<open>re.DOTALL\<close>: the leftmost opening character after which a closing one occurs,
  up to the last closing one.
\<close>

definition is_space :: "char \<Rightarrow> bool" where
  "is_space c =
     (let n = (of_char c :: nat) in n = 32 \<or> (9 \<le> n \<and> n \<le> 13) \<or> (28 \<le> n \<and> n \<le> 31))"

definition strip :: "string \<Rightarrow> string" where
  "strip s = rev (dropWhile is_space (rev (dropWhile is_space s)))"

definition search_span :: "char \<Rightarrow> char \<Rightarrow> string \<Rightarrow> string option" where
  "search_span l r s =
     (case dropWhile (\<lambda>c. c \<noteq> l) s of
        [] \<Rightarrow> None
      | _ # after \<Rightarrow>
          (case rev (dropWhile (\<lambda>c. c \<noteq> r) (rev after)) of
             [] \<Rightarrow> None
           | body \<Rightarrow> Some (l # body)))"

fun join :: "string \<Rightarrow> string list \<Rightarrow> string" where
  "join sep [] = []"
| "join sep [s] = s"
| "join sep (s # t # ss) = s @ sep @ join sep (t # ss)"

definition indent :: string where
  "indent = replicate 12 (CHR '' '')"

definition dq :: string where
  "dq = [CHR 0x22]"

definition categories_prompt :: "string \<Rightarrow> string" where
  "categories_prompt text_in =
     [CHR 0x0A] @ indent
     @ ''Given the following content, extract matching categories from this list:''
     @ [CHR 0x0A] @ indent @ join '', '' CATEGORY_LIST
     @ [CHR 0x0A] @ indent @ ''Return JSON: [{'' @ dq @ ''category_name'' @ dq @ '': ''
     @ dq @ ''...'' @ dq @ '', '' @ dq @ ''text'' @ dq @ '': '' @ dq @ dq @ ''}]''
     @ [CHR 0x0A] @ indent @ ''Content: '' @ take 3000 text_in
     @ [CHR 0x0A] @ indent"

definition site_type_prompt :: "string \<Rightarrow> string" where
  "site_type_prompt text_in =
     [CHR 0x0A] @ indent
     @ ''Classify this site into one: [blog, news, company, ecommerce, portfolio, forum, educational, medical, other]''
     @ [CHR 0x0A] @ indent @ ''Return JSON: {'' @ dq @ ''site_type'' @ dq @ '': ''
     @ dq @ ''...'' @ dq @ ''}''
     @ [CHR 0x0A] @ indent @ ''Content: '' @ take 3000 text_in
     @ [CHR 0x0A] @ indent"

text \<open>
  \<open>for attempt in range(3)\<close> with the number of attempts left. The wait is outside the
  \<open>try\<close>, so its exception leaves the method; everything from the call to the decoding
  is inside, so an exception there leads to \<open>backoff\<close> and the next attempt; an
  exception of \<open>backoff\<close> itself, raised in the except branch, leaves the method.
\<close>

fun categories_attempts ::
  "inference \<Rightarrow> string \<Rightarrow> nat \<Rightarrow> world \<Rightarrow> (exn + json list) \<times> world" where
  "categories_attempts I text_in 0 w = (Inr [], w)"
| "categories_attempts I text_in (Suc n) w =
     (case await_slot w of
        (Some e, w1) \<Rightarrow> (Inl e, w1)
      | (None, w1) \<Rightarrow>
     (case invoke I (categories_prompt text_in) w1 of
        (Inl e, w2) \<Rightarrow>
          (case back_off I w2 of
             (Some e', w3) \<Rightarrow> (Inl e', w3)
           | (None, w3) \<Rightarrow> categories_attempts I text_in n w3)
      | (Inr response, w2) \<Rightarrow>
     (case search_span (CHR ''['') (CHR '']'') (strip response) of
        None \<Rightarrow> (Inr [], record_success w2)
      | Some fragment \<Rightarrow>
     (case loads_array I fragment of
        Inl e \<Rightarrow>
          (case back_off I (record_success w2) of
             (Some e', w3) \<Rightarrow> (Inl e', w3)
           | (None, w3) \<Rightarrow> categories_attempts I text_in n w3)
      | Inr decoded \<Rightarrow> (Inr decoded, record_success w2)))))"

definition get_categories :: "inference \<Rightarrow> string \<Rightarrow> world \<Rightarrow> (exn + json list) \<times> world" where
  "get_categories I text_in w = categories_attempts I text_in 3 w"

definition dict_get :: "(string \<times> json) list \<Rightarrow> string \<Rightarrow> json \<Rightarrow> json" where
  "dict_get d k dflt = (case map_of d k of Some v \<Rightarrow> v | None \<Rightarrow> dflt)"

fun site_type_attempts ::
  "inference \<Rightarrow> string \<Rightarrow> nat \<Rightarrow> world \<Rightarrow> (exn + json) \<times> world" where
  "site_type_attempts I text_in 0 w = (Inr (JStr ''other''), w)"
| "site_type_attempts I text_in (Suc n) w =
     (case await_slot w of
        (Some e, w1) \<Rightarrow> (Inl e, w1)
      | (None, w1) \<Rightarrow>
     (case invoke I (site_type_prompt text_in) w1 of
        (Inl e, w2) \<Rightarrow>
          (case back_off I w2 of
             (Some e', w3) \<Rightarrow> (Inl e', w3)
           | (None, w3) \<Rightarrow> site_type_attempts I text_in n w3)
      | (Inr response, w2) \<Rightarrow>
     (case search_span (CHR 0x7B) (CHR 0x7D) (strip response) of
        None \<Rightarrow> (Inr (JStr ''other''), record_success w2)
      | Some fragment \<Rightarrow>
     (case loads_object I fragment of
        Inl e \<Rightarrow>
          (case back_off I (record_success w2) of
             (Some e', w3) \<Rightarrow> (Inl e', w3)
           | (None, w3) \<Rightarrow> site_type_attempts I text_in n w3)
      | Inr decoded \<Rightarrow>
          (Inr (dict_get decoded ''site_type'' (JStr ''other'')), record_success w2)))))"

definition get_site_type :: "inference \<Rightarrow> string \<Rightarrow> world \<Rightarrow> (exn + json) \<times> world" where
  "get_site_type I text_in w = site_type_attempts I text_in 3 w"

section \<open>analyze_url\<close>

text \<open>
  What the rendering collaborator does for a URL: whether \<open>context.new_page\<close>,
  \<open>goto\<close>, \<open>wait_for_timeout\<close> and \<open>close\<close> raise, the page's final URL, its
  markup, and its anchors. \<open>parse\<close> is the parser with the queries of
  \<open>extract_snippet\<close>; \<open>visible_text\<close> is the text of the markup once the
  \<open>script\<close>, \<open>style\<close>, \<open>nav\<close>, \<open>footer\<close> and \<open>aside\<close> elements are removed.
\<close>

record page =
  new_page_raises :: "exn option"
  goto_raises :: "exn option"
  wait_for_timeout_raises :: "exn option"
  page_url :: string
  page_content :: "exn + string"
  query_anchors :: "exn + anchor list"
  close_raises :: "exn option"

record services =
  infer :: inference
  lib :: urllib
  browse :: "string \<Rightarrow> page"
  parse :: "string \<Rightarrow> soup"
  visible_text :: "string \<Rightarrow> string"

record page_result =
  URL :: string
  site_type :: json
  extracted_web_content :: string
  content :: "(json \<times> string \<times> string list) list"
  errors :: "string option"

definition failure :: "string \<Rightarrow> string \<Rightarrow> page_result" where
  "failure url msg =
     \<lparr>URL = url, site_type = JStr ''other'', extracted_web_content = [], content = [],
      errors = Some msg\<rparr>"

definition validate_url :: "urllib \<Rightarrow> string \<Rightarrow> exn + bool" where
  "validate_url U url =
     (case scheme U url of
        Inl e \<Rightarrow> Inl e
      | Inr sch \<Rightarrow> Inr (sch \<in> set [''http'', ''https'']))"

text \<open>\<open>re.sub(r"\s+", " ", text)\<close>\<close>

function collapse_ws :: "string \<Rightarrow> string" where
  "collapse_ws [] = []"
| "collapse_ws (c # cs) =
     (if is_space c then CHR '' '' # collapse_ws (dropWhile is_space cs)
      else c # collapse_ws cs)"
  by pat_completeness auto
termination
  by (relation "measure length") (auto simp: length_dropWhile_le less_Suc_eq_le)

text \<open>\<open>cat["category_name"]\<close> on a decoded JSON value.\<close>

definition not_subscriptable :: "string \<Rightarrow> exn" where
  "not_subscriptable ty = TypeError (quoted ty @ '' object is not subscriptable'')"

fun subscript :: "json \<Rightarrow> string \<Rightarrow> exn + json" where
  "subscript (JObj d) k =
     (case map_of d k of Some v \<Rightarrow> Inr v | None \<Rightarrow> Inl (KeyError (quoted k)))"
| "subscript (JArr _) k = Inl (TypeError ''list indices must be integers or slices, not str'')"
| "subscript (JStr _) k =
     Inl (TypeError (''string indices must be integers, not '' @ quoted ''str''))"
| "subscript JNull k = Inl (not_subscriptable ''NoneType'')"
| "subscript (JBool _) k = Inl (not_subscriptable ''bool'')"
| "subscript (JInt _) k = Inl (not_subscriptable ''int'')"
| "subscript (JFloat _) k = Inl (not_subscriptable ''float'')"

fun assemble ::
  "services \<Rightarrow> page \<Rightarrow> string \<Rightarrow> string \<Rightarrow> json list
     \<Rightarrow> (json \<times> string \<times> string list) list \<Rightarrow> exn + (json \<times> string \<times> string list) list"
where
  "assemble S pg html final_url [] structured_content = Inr structured_content"
| "assemble S pg html final_url (cat # rest) structured_content =
     (case subscript cat ''category_name'' of
        Inl e \<Rightarrow> Inl e
      | Inr name \<Rightarrow>
     (case extract_snippet (parse S) html name of
        Inl e \<Rightarrow> Inl e
      | Inr snippet \<Rightarrow>
          let links = associate_links (lib S) (query_anchors pg) final_url name
          in if snippet \<noteq> [] \<or> links \<noteq> []
             then assemble S pg html final_url rest
                    (structured_content @ [(name, snippet, links)])
             else assemble S pg html final_url rest structured_content))"

text \<open>The body of the \<open>try\<close>: the record it returns, or the exception that leaves it.\<close>

definition analyze_try :: "services \<Rightarrow> string \<Rightarrow> world \<Rightarrow> (exn + page_result) \<times> world" where
  "analyze_try S url w =
     (case validate_url (lib S) url of
        Inl e \<Rightarrow> (Inl e, w)
      | Inr valid \<Rightarrow>
          if \<not> valid then (Inr (failure url ''Invalid URL''), w)
          else
     (let pg = browse S url in
      case new_page_raises pg of
        Some e \<Rightarrow> (Inl e, w)
      | None \<Rightarrow>
     (let w1 = w\<lparr>open_pages := open_pages w + 1\<rparr> in
      case goto_raises pg of
        Some e \<Rightarrow> (Inl e, w1)
      | None \<Rightarrow>
     (case wait_for_timeout_raises pg of
        Some e \<Rightarrow> (Inl e, w1)
      | None \<Rightarrow>
     (let w2 = w1\<lparr>clock := clock w1 + 2\<rparr>;
          final_url = page_url pg
      in case page_content pg of
        Inl e \<Rightarrow> (Inl e, w2)
      | Inr html \<Rightarrow>
     (let text_in = collapse_ws (visible_text S html) in
      case get_categories (infer S) text_in w2 of
        (Inl e, w3) \<Rightarrow> (Inl e, w3)
      | (Inr categories, w3) \<Rightarrow>
     (case get_site_type (infer S) text_in w3 of
        (Inl e, w4) \<Rightarrow> (Inl e, w4)
      | (Inr st, w4) \<Rightarrow>
     (case assemble S pg html final_url categories [] of
        Inl e \<Rightarrow> (Inl e, w4)
      | Inr structured_content \<Rightarrow>
     (case close_raises pg of
        Some e \<Rightarrow> (Inl e, w4)
      | None \<Rightarrow>
          (Inr \<lparr>URL = final_url, site_type = st, extracted_web_content = text_in,
                content = structured_content, errors = None\<rparr>,
           w4\<lparr>open_pages := open_pages w4 - 1\<rparr>))))))))))"

definition analyze_url :: "services \<Rightarrow> string \<Rightarrow> world \<Rightarrow> page_result \<times> world" where
  "analyze_url S url w =
     (case analyze_try S url w of
        (Inl e, w') \<Rightarrow> (failure url (str_of e), w')
      | (Inr r, w') \<Rightarrow> (r, w'))"

section \<open>Scenarios and concrete collaborators\<close>

text \<open>
  A run of \<open>wait_if_needed\<close> followed by \<open>record_request\<close>, once per pair of clock
  readings, stopping at the first exception.
\<close>

fun slot_pairs :: "throttle \<Rightarrow> (real \<times> real) list \<Rightarrow> exn option \<times> throttle" where
  "slot_pairs th [] = (None, th)"
| "slot_pairs th ((t_wait, t_record) # rest) =
     (case wait_if_needed t_wait th of
        (ds, Some e, th1) \<Rightarrow> (Some e, th1)
      | (ds, None, th1) \<Rightarrow> slot_pairs (record_request t_record th1) rest)"

text \<open>
  What the \<open>try\<close> block of an attempt does with the \<open>n\<close>-th inference call: the value
  it returns, or the exception that reaches the except branch; and the calls that the
  attempt makes on the limiter and the model, given the answer of the inference call and
  whether the block raised.
\<close>

definition categories_try :: "inference \<Rightarrow> nat \<Rightarrow> string \<Rightarrow> exn + json list" where
  "categories_try I n prompt =
     (case snd (llm_invoke I n prompt) of
        Inl e \<Rightarrow> Inl e
      | Inr response \<Rightarrow>
          (case search_span (CHR ''['') (CHR '']'') (strip response) of
             None \<Rightarrow> Inr []
           | Some fragment \<Rightarrow> loads_array I fragment))"

definition site_type_try :: "inference \<Rightarrow> nat \<Rightarrow> string \<Rightarrow> exn + json" where
  "site_type_try I n prompt =
     (case snd (llm_invoke I n prompt) of
        Inl e \<Rightarrow> Inl e
      | Inr response \<Rightarrow>
          (case search_span (CHR 0x7B) (CHR 0x7D) (strip response) of
             None \<Rightarrow> Inr (JStr ''other'')
           | Some fragment \<Rightarrow>
               (case loads_object I fragment of
                  Inl e \<Rightarrow> Inl e
                | Inr decoded \<Rightarrow> Inr (dict_get decoded ''site_type'' (JStr ''other'')))))"

definition attempt_events :: "exn + string \<Rightarrow> bool \<Rightarrow> event list" where
  "attempt_events answer raised =
     [Wait, Invoke] @ (if isl answer then [] else [Record]) @ (if raised then [Backoff] else [])"

definition categories_events :: "inference \<Rightarrow> string \<Rightarrow> nat \<Rightarrow> event list" where
  "categories_events I prompt n =
     attempt_events (snd (llm_invoke I n prompt)) (isl (categories_try I n prompt))"

definition site_type_events :: "inference \<Rightarrow> string \<Rightarrow> nat \<Rightarrow> event list" where
  "site_type_events I prompt n =
     attempt_events (snd (llm_invoke I n prompt)) (isl (site_type_try I n prompt))"

definition three_failed_attempts :: "event list" where
  "three_failed_attempts =
     [Wait, Invoke, Backoff, Wait, Invoke, Backoff, Wait, Invoke, Backoff]"

text \<open>
  The stages of \<open>analyze_url\<close>: the page is fetched when the URL is valid and the handle,
  the navigation, the settle delay and the markup raise nothing; the state after the fetch;
  the text handed to the classification calls.
\<close>

definition fetched :: "services \<Rightarrow> string \<Rightarrow> string \<Rightarrow> bool" where
  "fetched S url html =
     (validate_url (lib S) url = Inr True \<and> new_page_raises (browse S url) = None
      \<and> goto_raises (browse S url) = None \<and> wait_for_timeout_raises (browse S url) = None
      \<and> page_content (browse S url) = Inr html)"

definition after_fetch :: "world \<Rightarrow> world" where
  "after_fetch w = w\<lparr>open_pages := open_pages w + 1, clock := clock w + 2\<rparr>"

definition cleaned :: "services \<Rightarrow> string \<Rightarrow> string" where
  "cleaned S html = collapse_ws (visible_text S html)"

text \<open>
  The texts of the fallback tiers of \<open>extract_snippet\<close> that a page has: its
  \<open>article\<close>, its \<open>main\<close>, and its first \<open>div\<close> of each content class.
\<close>

definition fallback_texts :: "soup \<Rightarrow> string list" where
  "fallback_texts sp =
     concat (map (case_option [] (\<lambda>t. [t]))
               ([article sp, main_el sp] @ map (div_class sp) content_classes))"

text \<open>
  The standard library on the references used below. \<open>urlsplit\<close> takes as scheme the
  characters before the first colon when they begin with a letter and are letters, digits,
  \<open>+\<close>, \<open>-\<close> or \<open>.\<close>; the network location is what follows \<open>//\<close> after the scheme, up
  to the next \<open>/\<close>, \<open>?\<close> or \<open>#\<close>. \<open>urljoin\<close> returns an absolute reference (one with
  a scheme other than the base's, or with a network location of its own and no dot
  segments) unchanged, and \<open>absolute_urllib\<close> is only applied to such references.
\<close>

definition is_alpha :: "char \<Rightarrow> bool" where
  "is_alpha c = (let n = (of_char (lower_char c) :: nat) in 97 \<le> n \<and> n \<le> 122)"

definition is_scheme_char :: "char \<Rightarrow> bool" where
  "is_scheme_char c =
     (let n = (of_char c :: nat)
      in is_alpha c \<or> (48 \<le> n \<and> n \<le> 57) \<or> c \<in> set ''+-.'')"

definition split_scheme :: "string \<Rightarrow> string \<times> string" where
  "split_scheme url =
     (let pre = takeWhile (\<lambda>c. c \<noteq> CHR '':'') url
      in if length pre < length url \<and> pre \<noteq> [] \<and> is_alpha (hd pre) \<and> list_all is_scheme_char pre
         then (lower pre, drop (length pre + 1) url)
         else ([], url))"

definition urlsplit_netloc :: "string \<Rightarrow> string" where
  "urlsplit_netloc url =
     (let rest = snd (split_scheme url)
      in if take 2 rest = ''//'' then takeWhile (\<lambda>c. c \<notin> set ''/?#'') (drop 2 rest) else [])"

definition absolute_urllib :: urllib where
  "absolute_urllib =
     \<lparr>urljoin = (\<lambda>base ref. Inr ref),
      netloc = (\<lambda>url. Inr (urlsplit_netloc url)),
      scheme = (\<lambda>url. Inr (fst (split_scheme url)))\<rparr>"

text \<open>
  A limiter with a cap of one request per minute that recorded a request at time 0 and
  was put in cooldown at time 0 with a hint of 5 seconds.
\<close>

definition full_in_cooldown :: throttle where
  "full_in_cooldown =
     handle_quota_error 0 (Some 5) ((new_throttle 1 60)\<lparr>requests_timestamps := [0]\<rparr>)"

text \<open>A fresh run: five requests per minute, as \<open>Analyzer()\<close> builds its limiter.\<close>

definition fresh_world :: world where
  "fresh_world =
     \<lparr>clock = 0, rate_limiter = new_throttle 5 60, llm_calls = 0, draws = 0, calls = [],
      slept = [], open_pages = 0\<rparr>"

text \<open>Inference stubs: one that always raises a quota error, one that always raises a
  transient error, one that answers without any JSON, one that raises once and then
  answers a category list, one that answers the end-to-end scenario's category list and
  site type.\<close>

definition no_json :: "string \<Rightarrow> exn + 'a" where
  "no_json s = Inl (ValueError ''Expecting value'')"

definition quota_stub :: inference where
  "quota_stub =
     \<lparr>llm_invoke = (\<lambda>n prompt. (0, Inl (QuotaError ''429 Resource has been exhausted''))),
      uniform01 = (\<lambda>n. 1 / 2), loads_array = no_json, loads_object = no_json\<rparr>"

definition transient_stub :: inference where
  "transient_stub =
     \<lparr>llm_invoke = (\<lambda>n prompt. (0, Inl (TransientError ''503 Service Unavailable''))),
      uniform01 = (\<lambda>n. 1 / 2), loads_array = no_json, loads_object = no_json\<rparr>"

definition prose_stub :: inference where
  "prose_stub =
     \<lparr>llm_invoke = (\<lambda>n prompt. (0, Inr ''I could not find any category.'')),
      uniform01 = (\<lambda>n. 1 / 2), loads_array = no_json, loads_object = no_json\<rparr>"

definition flaky_stub :: inference where
  "flaky_stub =
     \<lparr>llm_invoke =
        (\<lambda>n prompt. (0, if n = 0 then Inl (TransientError ''503 Service Unavailable'')
                            else Inr ''[about]'')),
      uniform01 = (\<lambda>n. 1 / 2),
      loads_array = (\<lambda>s. Inr [JObj [(''category_name'', JStr ''About Us'')]]),
      loads_object = no_json\<rparr>"

definition about_stub :: inference where
  "about_stub =
     \<lparr>llm_invoke =
        (\<lambda>n prompt. (1, if even n then Inr ''[about]'' else Inr ''{company}'')),
      uniform01 = (\<lambda>n. 1 / 2),
      loads_array =
        (\<lambda>s. Inr [JObj [(''category_name'', JStr ''About Us''), (''text'', JStr [])],
                    JObj [(''category_name'', JStr ''Other''), (''text'', JStr [])]]),
      loads_object = (\<lambda>s. Inr [(''site_type'', JStr ''company'')])\<rparr>"

text \<open>Pages: one whose only heading names the category and is followed by nothing, one
  where only the article matches, one with the scenario's heading and paragraph, and
  handles whose navigation fails.\<close>

definition bare_heading :: "string \<Rightarrow> soup" where
  "bare_heading html =
     \<lparr>headings = [(''About Us'', [])], article = Some ''About us: we build things.'',
      main_el = None, div_class = (\<lambda>cls. None)\<rparr>"

definition article_only :: "string \<Rightarrow> soup" where
  "article_only html =
     \<lparr>headings = [(''Welcome'', [''Hello.''])], article = Some ''Read our story here.'',
      main_el = None, div_class = (\<lambda>cls. None)\<rparr>"

definition about_page :: "string \<Rightarrow> soup" where
  "about_page html =
     \<lparr>headings = [(''About Us'', [''We build things.''])], article = None,
      main_el = None, div_class = (\<lambda>cls. None)\<rparr>"

definition mail_anchor :: anchor where
  "mail_anchor =
     \<lparr>get_href = Inr (Some ''mailto:support@example.com''), inner_text = Inr ''Email us''\<rparr>"

definition contact_anchor :: anchor where
  "contact_anchor =
     \<lparr>get_href = Inr (Some ''https://example.com/contact''), inner_text = Inr ''Contact''\<rparr>"

definition elsewhere_anchor :: anchor where
  "elsewhere_anchor =
     \<lparr>get_href = Inr (Some ''https://other.org/contact''), inner_text = Inr ''Contact''\<rparr>"

definition good_page :: page where
  "good_page =
     \<lparr>new_page_raises = None, goto_raises = None, wait_for_timeout_raises = None,
      page_url = ''https://example.com/'',
      page_content = Inr ''<h2>About Us</h2><p>We build things.</p>'',
      query_anchors = Inr [contact_anchor], close_raises = None\<rparr>"

definition timeout_page :: page where
  "timeout_page =
     good_page\<lparr>goto_raises := Some (NavigationError ''Timeout 30000ms exceeded'')\<rparr>"

definition good_site :: services where
  "good_site =
     \<lparr>infer = about_stub, lib = absolute_urllib, browse = (\<lambda>url. good_page),
      parse = about_page, visible_text = (\<lambda>html. ''About Us We build things.'')\<rparr>"

definition timeout_site :: services where
  "timeout_site = good_site\<lparr>browse := (\<lambda>url. timeout_page)\<rparr>"

section \<open>The sliding window\<close>

lemma cooldown_step_idle:
  "\<not> quota_exceeded th \<Longrightarrow> cooldown_step now th = ([], th)"
  by (simp add: cooldown_step_def split: option.splits)

lemma min_list_in: "(xs::real list) \<noteq> [] \<Longrightarrow> min_list xs \<in> set xs"
  by (simp add: min_list_Min)

lemma min_list_le: "x \<in> set xs \<Longrightarrow> min_list xs \<le> (x::real)"
  by (cases "xs = []") (simp_all add: min_list_Min)

lemma wait_at_cap:
  assumes "\<not> quota_exceeded th"
    and "ts = filter (\<lambda>t. now - 60 < t) (requests_timestamps th)"
    and "ts \<noteq> []" and "max_requests_per_minute th \<le> int (length ts)"
  shows "wait_if_needed now th =
           ([min_list ts + 60 - now], None, th\<lparr>requests_timestamps := ts\<rparr>)"
    and "0 < min_list ts + 60 - now"
proof -
  have "min_list ts \<in> set ts" using assms(3) by (rule min_list_in)
  then show pos: "0 < min_list ts + 60 - now" using assms(2) by auto
  have "60 - (now - min_list ts) = min_list ts + 60 - now" by simp
  then show "wait_if_needed now th =
           ([min_list ts + 60 - now], None, th\<lparr>requests_timestamps := ts\<rparr>)"
    using assms pos
    by (simp add: wait_if_needed_def cooldown_step_idle Let_def)
qed

lemma wait_positive_cap:
  assumes "\<not> quota_exceeded th" and "0 < max_requests_per_minute th"
  shows "\<exists>ds. wait_if_needed now th =
           (ds, None, th\<lparr>requests_timestamps := filter (\<lambda>t. now - 60 < t) (requests_timestamps th)\<rparr>)"
  using assms by (auto simp add: wait_if_needed_def cooldown_step_idle Let_def)

lemma filter_window:
  "a \<le> now \<Longrightarrow> filter (\<lambda>t. now - 60 < t) (filter (\<lambda>t. a - 60 < (t::real)) xs) = filter (\<lambda>t. now - 60 < t) xs"
  by (induction xs) auto

lemma slot_pairs_window:
  assumes "\<not> quota_exceeded th" and "0 < max_requests_per_minute th"
    and "\<forall>(a, r) \<in> set ps. a \<le> now \<and> now - 60 < r"
  shows "\<exists>th1. slot_pairs th ps = (None, th1) \<and> \<not> quota_exceeded th1
           \<and> max_requests_per_minute th1 = max_requests_per_minute th
           \<and> filter (\<lambda>t. now - 60 < t) (requests_timestamps th1)
               = filter (\<lambda>t. now - 60 < t) (requests_timestamps th) @ map snd ps"
  using assms
proof (induction ps arbitrary: th)
  case Nil
  then show ?case by simp
next
  case (Cons p ps)
  obtain a r where p: "p = (a, r)" by (cases p)
  from Cons.prems p have ar: "a \<le> now" "now - 60 < r" by auto
  obtain ds where w: "wait_if_needed a th =
      (ds, None, th\<lparr>requests_timestamps := filter (\<lambda>t. a - 60 < t) (requests_timestamps th)\<rparr>)"
    using wait_positive_cap[OF Cons.prems(1,2)] by blast
  let ?th2 = "record_request r (th\<lparr>requests_timestamps := filter (\<lambda>t. a - 60 < t) (requests_timestamps th)\<rparr>)"
  have q: "\<not> quota_exceeded ?th2" "0 < max_requests_per_minute ?th2"
    using Cons.prems by (simp_all add: record_request_def reset_backoff_def)
  have rest: "\<forall>(a, r) \<in> set ps. a \<le> now \<and> now - 60 < r" using Cons.prems(3) by simp
  from Cons.IH[OF q rest] obtain th1 where
    th1: "slot_pairs ?th2 ps = (None, th1)" "\<not> quota_exceeded th1"
      "max_requests_per_minute th1 = max_requests_per_minute ?th2"
      "filter (\<lambda>t. now - 60 < t) (requests_timestamps th1)
               = filter (\<lambda>t. now - 60 < t) (requests_timestamps ?th2) @ map snd ps"
    by blast
  have "filter (\<lambda>t. now - 60 < t) (requests_timestamps ?th2)
        = filter (\<lambda>t. now - 60 < t) (requests_timestamps th) @ [r]"
    using ar filter_window[OF ar(1), of "requests_timestamps th"]
    by (simp add: record_request_def reset_backoff_def)
  with th1 w p show ?case
    by (simp add: record_request_def reset_backoff_def)
qed

text \<open>
  Claim C4. Take a limiter with a cap of \<open>N \<ge> 1\<close> requests per minute and no cooldown,
  and run \<open>N\<close> pairs of \<open>wait_if_needed\<close> and \<open>record_request\<close>, each recorded less
  than 60 seconds before the clock reading \<open>now\<close> of the next \<open>wait_if_needed\<close>. The
  pairs run without an exception, and that next call sleeps exactly once, for a duration
  \<open>d\<close> with \<open>0 < d \<le> 60\<close>: it keeps the timestamps \<open>t\<close> with \<open>now - 60 < t\<close>, and
  \<open>d\<close> is the time until the oldest of them is 60 seconds old.
\<close>

theorem throttle_cap_suspends:
  assumes "max_requests_per_minute th = int (length ps)" and "ps \<noteq> []"
    and "\<not> quota_exceeded th"
    and "\<forall>(a, r) \<in> set ps. a \<le> now \<and> now - 60 < r \<and> r \<le> now"
  shows "\<exists>th1 d.
           slot_pairs th ps = (None, th1)
         \<and> wait_if_needed now th1 =
             ([d], None,
              th1\<lparr>requests_timestamps := filter (\<lambda>t. now - 60 < t) (requests_timestamps th1)\<rparr>)
         \<and> d = min_list (filter (\<lambda>t. now - 60 < t) (requests_timestamps th1)) + 60 - now
         \<and> 0 < d \<and> d \<le> 60"
proof -
  have cap: "0 < max_requests_per_minute th" using assms(1,2) by simp
  have win: "\<forall>(a, r) \<in> set ps. a \<le> now \<and> now - 60 < r" using assms(4) by auto
  from slot_pairs_window[OF assms(3) cap win] obtain th1 where
    th1: "slot_pairs th ps = (None, th1)" "\<not> quota_exceeded th1"
      "max_requests_per_minute th1 = max_requests_per_minute th"
      "filter (\<lambda>t. now - 60 < t) (requests_timestamps th1)
               = filter (\<lambda>t. now - 60 < t) (requests_timestamps th) @ map snd ps"
    by blast
  let ?ts = "filter (\<lambda>t. now - 60 < t) (requests_timestamps th1)"
  have ne: "?ts \<noteq> []" using th1(4) assms(2) by simp
  have len: "max_requests_per_minute th1 \<le> int (length ?ts)"
    using th1(3,4) assms(1) by simp
  note w = wait_at_cap[OF th1(2) refl ne len]
  obtain a r where ar: "(a, r) \<in> set ps" using assms(2) by (cases ps) auto
  then have "r \<in> set ?ts" using th1(4) by force
  then have "min_list ?ts \<le> r" by (rule min_list_le)
  moreover have "r \<le> now" using ar assms(4) by auto
  ultimately have "min_list ?ts + 60 - now \<le> 60" by simp
  with th1(1) w show ?thesis by blast
qed

theorem throttle_cap_suspends_witness:
  "\<exists>th1 d. slot_pairs (new_throttle 2 60) [(0, 1), (1, 2)] = (None, th1)
      \<and> wait_if_needed 3 th1 =
             ([d], None,
              th1\<lparr>requests_timestamps := filter (\<lambda>t. 3 - 60 < t) (requests_timestamps th1)\<rparr>)
      \<and> d = min_list (filter (\<lambda>t. 3 - 60 < t) (requests_timestamps th1)) + 60 - 3
      \<and> 0 < d \<and> d \<le> 60"
  using throttle_cap_suspends[of "new_throttle 2 60" "[(0, 1), (1, 2)]" 3]
  by (simp add: new_throttle_def)

section \<open>The cooldown\<close>

lemma cooldown_step_frame:
  "requests_timestamps (snd (cooldown_step now th)) = requests_timestamps th"
  "max_requests_per_minute (snd (cooldown_step now th)) = max_requests_per_minute th"
  by (simp_all add: cooldown_step_def split: option.splits)

lemma wait_window:
  assumes "cooldown_step now th = (ds, th1)"
    and "ts = filter (\<lambda>t. now - 60 < t) (requests_timestamps th)"
  shows "int (length ts) < max_requests_per_minute th \<Longrightarrow>
           wait_if_needed now th = (ds, None, th1\<lparr>requests_timestamps := ts\<rparr>)"
    and "max_requests_per_minute th \<le> int (length ts) \<Longrightarrow> ts \<noteq> [] \<Longrightarrow>
           wait_if_needed now th =
             (ds @ [min_list ts + 60 - now], None, th1\<lparr>requests_timestamps := ts\<rparr>)
           \<and> 0 < min_list ts + 60 - now"
proof -
  have fr: "requests_timestamps th1 = requests_timestamps th"
    "max_requests_per_minute th1 = max_requests_per_minute th"
    using cooldown_step_frame[of now th] assms(1) by simp_all
  show "wait_if_needed now th = (ds, None, th1\<lparr>requests_timestamps := ts\<rparr>)"
    if "int (length ts) < max_requests_per_minute th"
    using that assms fr by (simp add: wait_if_needed_def Let_def)
  show "wait_if_needed now th =
             (ds @ [min_list ts + 60 - now], None, th1\<lparr>requests_timestamps := ts\<rparr>)
           \<and> 0 < min_list ts + 60 - now"
    if cap: "max_requests_per_minute th \<le> int (length ts)" and ne: "ts \<noteq> []"
  proof -
    have "min_list ts \<in> set ts" using ne by (rule min_list_in)
    then have pos: "0 < min_list ts + 60 - now" using assms(2) by auto
    have "60 - (now - min_list ts) = min_list ts + 60 - now" by simp
    then show ?thesis
      using cap ne pos assms fr by (simp add: wait_if_needed_def Let_def)
  qed
qed

lemma cooldown_step_waiting:
  "quota_exceeded th \<Longrightarrow> quota_reset_time th = Some reset \<Longrightarrow> now < reset \<Longrightarrow>
     cooldown_step now th = ([reset - now], th)"
  by (simp add: cooldown_step_def)

lemma cooldown_step_expired:
  "quota_exceeded th \<Longrightarrow> quota_reset_time th = Some reset \<Longrightarrow> reset \<le> now \<Longrightarrow>
     cooldown_step now th = ([], th\<lparr>quota_exceeded := False, quota_reset_time := None\<rparr>)"
  by (simp add: cooldown_step_def)

text \<open>
  Claim C5, as amended. In cooldown before the expiry, \<open>wait_if_needed\<close> first sleeps for
  exactly the time left until the expiry and leaves the cooldown set; at or after the expiry
  it sleeps nothing for the cooldown and clears the flag and the expiry. In both cases it
  then applies the window rule with the clock reading taken at its start: it keeps the
  timestamps newer than 60 seconds, and when they are as many as the cap or more it sleeps
  once more, until the oldest of them is 60 seconds older than that reading. So after
  \<open>handle_quota_error\<close> with a hint of 5 seconds, on a limiter that keeps fewer timestamps
  than its cap, the call one second later sleeps 4 seconds and nothing else, and the call
  six seconds later sleeps not at all and clears the cooldown.
\<close>

theorem cooldown_wait:
  "(quota_exceeded th \<and> quota_reset_time th = Some reset \<and> now < reset
      \<and> int (length (filter (\<lambda>t. now - 60 < t) (requests_timestamps th)))
            < max_requests_per_minute th \<longrightarrow>
      wait_if_needed now th =
        ([reset - now], None,
         th\<lparr>requests_timestamps := filter (\<lambda>t. now - 60 < t) (requests_timestamps th)\<rparr>))
   \<and> (quota_exceeded th \<and> quota_reset_time th = Some reset \<and> now < reset
      \<and> max_requests_per_minute th
            \<le> int (length (filter (\<lambda>t. now - 60 < t) (requests_timestamps th)))
      \<and> filter (\<lambda>t. now - 60 < t) (requests_timestamps th) \<noteq> [] \<longrightarrow>
      wait_if_needed now th =
        ([reset - now,
          min_list (filter (\<lambda>t. now - 60 < t) (requests_timestamps th)) + 60 - now], None,
         th\<lparr>requests_timestamps := filter (\<lambda>t. now - 60 < t) (requests_timestamps th)\<rparr>)
      \<and> 0 < min_list (filter (\<lambda>t. now - 60 < t) (requests_timestamps th)) + 60 - now)
   \<and> (quota_exceeded th \<and> quota_reset_time th = Some reset \<and> reset \<le> now
      \<and> int (length (filter (\<lambda>t. now - 60 < t) (requests_timestamps th)))
            < max_requests_per_minute th \<longrightarrow>
      wait_if_needed now th =
        ([], None,
         th\<lparr>quota_exceeded := False, quota_reset_time := None,
            requests_timestamps := filter (\<lambda>t. now - 60 < t) (requests_timestamps th)\<rparr>))
   \<and> (quota_exceeded th \<and> quota_reset_time th = Some reset \<and> reset \<le> now
      \<and> max_requests_per_minute th
            \<le> int (length (filter (\<lambda>t. now - 60 < t) (requests_timestamps th)))
      \<and> filter (\<lambda>t. now - 60 < t) (requests_timestamps th) \<noteq> [] \<longrightarrow>
      wait_if_needed now th =
        ([min_list (filter (\<lambda>t. now - 60 < t) (requests_timestamps th)) + 60 - now], None,
         th\<lparr>quota_exceeded := False, quota_reset_time := None,
            requests_timestamps := filter (\<lambda>t. now - 60 < t) (requests_timestamps th)\<rparr>)
      \<and> 0 < min_list (filter (\<lambda>t. now - 60 < t) (requests_timestamps th)) + 60 - now)
   \<and> (int (length (filter (\<lambda>t. t0 + 1 - 60 < t) (requests_timestamps th)))
          < max_requests_per_minute th \<longrightarrow>
      fst (wait_if_needed (t0 + 1) (handle_quota_error t0 (Some 5) th)) = [4])
   \<and> (int (length (filter (\<lambda>t. t0 + 6 - 60 < t) (requests_timestamps th)))
          < max_requests_per_minute th \<longrightarrow>
      wait_if_needed (t0 + 6) (handle_quota_error t0 (Some 5) th) =
        ([], None,
         th\<lparr>quota_exceeded := False, quota_reset_time := None,
            requests_timestamps := filter (\<lambda>t. t0 + 6 - 60 < t) (requests_timestamps th)\<rparr>))"
proof -
  let ?ts = "filter (\<lambda>t. now - 60 < t) (requests_timestamps th)"
  let ?q = "handle_quota_error t0 (Some 5) th"
  have a: "wait_if_needed now th = ([reset - now], None, th\<lparr>requests_timestamps := ?ts\<rparr>)"
    if "quota_exceeded th" "quota_reset_time th = Some reset" "now < reset"
      "int (length ?ts) < max_requests_per_minute th"
    using wait_window(1)[OF cooldown_step_waiting[OF that(1,2,3)] refl that(4)] .
  have b: "wait_if_needed now th =
        ([reset - now, min_list ?ts + 60 - now], None, th\<lparr>requests_timestamps := ?ts\<rparr>)
      \<and> 0 < min_list ?ts + 60 - now"
    if "quota_exceeded th" "quota_reset_time th = Some reset" "now < reset"
      "max_requests_per_minute th \<le> int (length ?ts)" "?ts \<noteq> []"
    using wait_window(2)[OF cooldown_step_waiting[OF that(1,2,3)] refl that(4,5)] by simp
  have c: "wait_if_needed now th =
        ([], None, th\<lparr>quota_exceeded := False, quota_reset_time := None,
                     requests_timestamps := ?ts\<rparr>)"
    if "quota_exceeded th" "quota_reset_time th = Some reset" "reset \<le> now"
      "int (length ?ts) < max_requests_per_minute th"
    using wait_window(1)[OF cooldown_step_expired[OF that(1,2,3)] refl that(4)] .
  have d: "wait_if_needed now th =
        ([min_list ?ts + 60 - now], None,
         th\<lparr>quota_exceeded := False, quota_reset_time := None, requests_timestamps := ?ts\<rparr>)
      \<and> 0 < min_list ?ts + 60 - now"
    if "quota_exceeded th" "quota_reset_time th = Some reset" "reset \<le> now"
      "max_requests_per_minute th \<le> int (length ?ts)" "?ts \<noteq> []"
    using wait_window(2)[OF cooldown_step_expired[OF that(1,2,3)] refl that(4,5)] by simp
  have q: "quota_exceeded ?q" "quota_reset_time ?q = Some (t0 + 5)"
    "requests_timestamps ?q = requests_timestamps th"
    "max_requests_per_minute ?q = max_requests_per_minute th"
    by (simp_all add: handle_quota_error_def)
  have e: "fst (wait_if_needed (t0 + 1) ?q) = [4]"
    if "int (length (filter (\<lambda>t. t0 + 1 - 60 < t) (requests_timestamps th)))
          < max_requests_per_minute th"
  proof -
    have "cooldown_step (t0 + 1) ?q = ([t0 + 5 - (t0 + 1)], ?q)"
      by (rule cooldown_step_waiting[OF q(1,2)]) simp
    from wait_window(1)[OF this refl] that show ?thesis by (simp add: q)
  qed
  have f: "wait_if_needed (t0 + 6) ?q =
        ([], None,
         th\<lparr>quota_exceeded := False, quota_reset_time := None,
            requests_timestamps := filter (\<lambda>t. t0 + 6 - 60 < t) (requests_timestamps th)\<rparr>)"
    if "int (length (filter (\<lambda>t. t0 + 6 - 60 < t) (requests_timestamps th)))
          < max_requests_per_minute th"
  proof -
    have "cooldown_step (t0 + 6) ?q =
            ([], ?q\<lparr>quota_exceeded := False, quota_reset_time := None\<rparr>)"
      by (rule cooldown_step_expired[OF q(1,2)]) simp
    from wait_window(1)[OF this refl] that show ?thesis
      by (simp add: q) (simp add: handle_quota_error_def)
  qed
  from a b c d e f show ?thesis by blast
qed

theorem cooldown_wait_witness:
  "fst (wait_if_needed 1 (handle_quota_error 0 (Some 5) (new_throttle 5 60))) = [4]
   \<and> wait_if_needed 6 (handle_quota_error 0 (Some 5) (new_throttle 5 60)) =
       ([], None, new_throttle 5 60)
   \<and> fst (wait_if_needed 1 full_in_cooldown) = [4, 59]
   \<and> fst (wait_if_needed 6 full_in_cooldown) = [54]"
proof -
  let ?fresh = "new_throttle 5 60"
  have fresh: "requests_timestamps ?fresh = []" "max_requests_per_minute ?fresh = 5"
    by (simp_all add: new_throttle_def)
  have full: "quota_exceeded full_in_cooldown" "quota_reset_time full_in_cooldown = Some 5"
    "requests_timestamps full_in_cooldown = [0]"
    "max_requests_per_minute full_in_cooldown = 1"
    by (simp_all add: full_in_cooldown_def handle_quota_error_def new_throttle_def)
  have a: "fst (wait_if_needed (0 + 1) (handle_quota_error 0 (Some 5) ?fresh)) = [4]"
    using cooldown_wait[of ?fresh 0 0 0] by (simp add: fresh)
  have b: "wait_if_needed (0 + 6) (handle_quota_error 0 (Some 5) ?fresh) =
        ([], None,
         ?fresh\<lparr>quota_exceeded := False, quota_reset_time := None,
            requests_timestamps := filter (\<lambda>t. 0 + 6 - 60 < t) (requests_timestamps ?fresh)\<rparr>)"
    using cooldown_wait[of ?fresh 0 0 0] by (simp add: fresh)
  have c: "wait_if_needed 1 full_in_cooldown =
        ([5 - 1, min_list (filter (\<lambda>t. 1 - 60 < t) (requests_timestamps full_in_cooldown))
                  + 60 - 1], None,
         full_in_cooldown\<lparr>requests_timestamps :=
            filter (\<lambda>t. 1 - 60 < t) (requests_timestamps full_in_cooldown)\<rparr>)"
    using cooldown_wait[of full_in_cooldown 5 1 0] by (simp add: full)
  have d: "wait_if_needed 6 full_in_cooldown =
        ([min_list (filter (\<lambda>t. 6 - 60 < t) (requests_timestamps full_in_cooldown)) + 60 - 6],
         None,
         full_in_cooldown\<lparr>quota_exceeded := False, quota_reset_time := None,
            requests_timestamps :=
              filter (\<lambda>t. 6 - 60 < t) (requests_timestamps full_in_cooldown)\<rparr>)"
    using cooldown_wait[of full_in_cooldown 5 6 0] by (simp add: full)
  from a b show ?thesis
    unfolding c d by (simp add: full) (simp add: new_throttle_def)
qed

text \<open>
  The claim as stated fails on a limiter at its cap: one second after a cooldown of 5
  seconds was entered the call sleeps 4 seconds and then 59 more for the window, and six
  seconds after, it sleeps 54 seconds.
\<close>

theorem cooldown_at_cap_counterexample:
  "requests_timestamps full_in_cooldown = [0]
   \<and> max_requests_per_minute full_in_cooldown = 1
   \<and> quota_reset_time full_in_cooldown = Some 5
   \<and> fst (wait_if_needed 1 full_in_cooldown) = [4, 59]
   \<and> fst (wait_if_needed 6 full_in_cooldown) = [54]"
  by (simp add: full_in_cooldown_def handle_quota_error_def new_throttle_def
        wait_if_needed_def cooldown_step_def Let_def)

section \<open>The backoff delay\<close>







section \<open>Snippets\<close>

lemma str_in_nonempty: "str_in kw s \<Longrightarrow> kw \<noteq> [] \<Longrightarrow> s \<noteq> []"
  by (cases s) simp_all

lemma any_kw_nonempty: "any_kw K (lower t) \<Longrightarrow> [] \<notin> set K \<Longrightarrow> t \<noteq> []"
  by (auto simp: any_kw_def list_ex_iff lower_def dest: str_in_nonempty)

lemma any_kw_Nil: "\<not> any_kw [] s"
  by (simp add: any_kw_def)

lemma table_keywords_nonempty: "category_keywords (JStr c) = Inr K \<Longrightarrow> [] \<notin> set K"
  by (auto simp: CATEGORY_KEYWORDS_def split: if_splits)

lemma take_500_nonempty: "t \<noteq> [] \<Longrightarrow> take 500 t \<noteq> []"
  by (cases t) simp_all

lemma div_tier_length: "length (div_tier sp K cs) \<le> 500"
  by (induction cs) (auto split: option.splits)

lemma main_tier_length: "length (main_tier sp K) \<le> 500"
  by (auto simp: main_tier_def Let_def div_tier_length split: option.splits)

lemma article_tier_length: "length (article_tier sp K) \<le> 500"
  by (auto simp: article_tier_def main_tier_length split: option.splits)

lemma heading_tier_length: "length (heading_tier sp K hs) \<le> 500"
  by (induction hs) (auto simp: article_tier_length)

lemma div_tier_match:
  "[] \<notin> set K \<Longrightarrow> cls \<in> set cs \<Longrightarrow> div_class sp cls = Some t \<Longrightarrow> any_kw K (lower t)
     \<Longrightarrow> div_tier sp K cs \<noteq> []"
  by (induction cs) (auto split: option.splits dest: any_kw_nonempty take_500_nonempty)

lemma fallback_textsD:
  "t \<in> set (fallback_texts sp) \<Longrightarrow>
     article sp = Some t \<or> main_el sp = Some t
     \<or> (\<exists>cls \<in> set content_classes. div_class sp cls = Some t)"
  by (auto simp: fallback_texts_def split: option.splits)

lemma article_tier_match:
  assumes "[] \<notin> set K" and "t \<in> set (fallback_texts sp)" and "any_kw K (lower t)"
  shows "article_tier sp K \<noteq> []"
proof -
  have d: "div_class sp cls = Some t \<Longrightarrow> cls \<in> set content_classes \<Longrightarrow>
             div_tier sp K content_classes \<noteq> []" for cls
    using assms(1,3) div_tier_match by blast
  have take: "any_kw K (lower x) \<Longrightarrow> take 500 x \<noteq> []" for x
    using assms(1) any_kw_nonempty take_500_nonempty by blast
  have m: "main_el sp = Some t \<or> (\<exists>cls \<in> set content_classes. div_class sp cls = Some t)
            \<Longrightarrow> main_tier sp K \<noteq> []"
    using assms(3) d take by (auto simp: main_tier_def Let_def split: option.splits)
  from fallback_textsD[OF assms(2)] show ?thesis
    using assms(3) m take by (auto simp: article_tier_def split: option.splits)
qed

lemma heading_tier_none:
  "\<forall>h \<in> set hs. \<not> any_kw K (lower (fst h)) \<Longrightarrow> heading_tier sp K hs = article_tier sp K"
  by (induction hs) auto

lemma heading_tier_first:
  "\<forall>g \<in> set pre. \<not> any_kw K (lower (fst g)) \<Longrightarrow> any_kw K (lower (fst h)) \<Longrightarrow>
     heading_tier sp K (pre @ h # post) = take 500 (join_sp (take 3 (snd h)))"
  by (induction pre) (cases h; auto)+

text \<open>
  Claim C6, as amended. For every markup and every category name, \<open>extract_snippet\<close>
  returns a string of at most 500 characters. When no heading matches and the text of the
  article, of the main element or of the first element of one of the content classes
  contains a keyword of the category, the string is not empty. When a heading matches, the
  string is the first 500 characters of the texts of up to three elements after the first
  such heading, joined by spaces, whatever the other tiers contain.
\<close>

theorem extract_snippet_bounded:
  "\<exists>K s. category_keywords (JStr c) = Inr K
       \<and> extract_snippet P html (JStr c) = Inr s
       \<and> length s \<le> 500
       \<and> ((\<forall>h \<in> set (headings (P html)). \<not> any_kw K (lower (fst h)))
           \<and> (\<exists>t \<in> set (fallback_texts (P html)). any_kw K (lower t)) \<longrightarrow> s \<noteq> [])
       \<and> (\<forall>pre h post. headings (P html) = pre @ h # post
              \<and> (\<forall>g \<in> set pre. \<not> any_kw K (lower (fst g))) \<and> any_kw K (lower (fst h))
              \<longrightarrow> s = take 500 (join_sp (take 3 (snd h))))"
proof -
  obtain K where K: "category_keywords (JStr c) = Inr K" by simp
  then have ne: "[] \<notin> set K" by (rule table_keywords_nonempty)
  let ?s = "heading_tier (P html) K (headings (P html))"
  have s: "extract_snippet P html (JStr c) = Inr ?s"
    using K by (simp add: extract_snippet_def Let_def del: category_keywords.simps)
  have a: "(\<forall>h \<in> set (headings (P html)). \<not> any_kw K (lower (fst h)))
           \<and> (\<exists>t \<in> set (fallback_texts (P html)). any_kw K (lower t)) \<longrightarrow> ?s \<noteq> []"
    using article_tier_match[OF ne] by (auto simp: heading_tier_none)
  have b: "\<forall>pre h post. headings (P html) = pre @ h # post
              \<and> (\<forall>g \<in> set pre. \<not> any_kw K (lower (fst g))) \<and> any_kw K (lower (fst h))
              \<longrightarrow> ?s = take 500 (join_sp (take 3 (snd h)))"
    by (auto simp: heading_tier_first)
  from K s a b heading_tier_length[of "P html" K "headings (P html)"] show ?thesis by blast
qed

theorem extract_snippet_bounded_witness:
  "extract_snippet article_only
      ''<h1>Welcome</h1><p>Hello.</p><article>Read our story here.</article>''
      (JStr ''About Us'') \<noteq> Inr []"
proof -
  let ?html = "''<h1>Welcome</h1><p>Hello.</p><article>Read our story here.</article>''"
  from extract_snippet_bounded[of "''About Us''" article_only ?html]
  obtain K s where K: "category_keywords (JStr ''About Us'') = Inr K"
    and s: "extract_snippet article_only ?html (JStr ''About Us'') = Inr s"
    and ne: "(\<forall>h \<in> set (headings (article_only ?html)). \<not> any_kw K (lower (fst h)))
           \<and> (\<exists>t \<in> set (fallback_texts (article_only ?html)). any_kw K (lower t))
           \<longrightarrow> s \<noteq> []"
    by blast
  have Kv: "K = [''about us'', ''our story'', ''who we are'']"
    using K by (simp add: CATEGORY_KEYWORDS_def)
  have "\<forall>h \<in> set (headings (article_only ?html)). \<not> any_kw K (lower (fst h))"
    unfolding Kv by (simp add: article_only_def any_kw_def lower_def lower_char_def)
  moreover have "\<exists>t \<in> set (fallback_texts (article_only ?html)). any_kw K (lower t)"
    unfolding Kv
    by (simp add: article_only_def fallback_texts_def content_classes_def any_kw_def
          lower_def lower_char_def)
  ultimately have "s \<noteq> []" using ne by blast
  with s show ?thesis by simp
qed

text \<open>
  The claim as stated fails on a page whose heading \<open>About Us\<close> is followed by no
  paragraph or block: the heading's text contains a keyword, and so does the article's, and
  the result is empty.
\<close>

theorem extract_snippet_empty_counterexample:
  "category_keywords (JStr ''About Us'') = Inr [''about us'', ''our story'', ''who we are'']
   \<and> headings (bare_heading ''<h1>About Us</h1><article>About us: we build things.</article>'')
       = [(''About Us'', [])]
   \<and> str_in ''about us'' (lower ''About Us'')
   \<and> extract_snippet bare_heading
        ''<h1>About Us</h1><article>About us: we build things.</article>'' (JStr ''About Us'')
       = Inr []"
  by (simp add: extract_snippet_def bare_heading_def CATEGORY_KEYWORDS_def any_kw_def
        lower_def lower_char_def)

section \<open>Links\<close>

lemma fromkeys_filter:
  "fromkeys seen xs = filter (\<lambda>x. x \<notin> set seen) (rev (remdups (rev xs)))"
proof (induction xs arbitrary: seen)
  case Nil
  then show ?case by simp
next
  case (Cons x xs)
  have last: "remdups (ys @ [x]) = filter (\<lambda>y. y \<noteq> x) (remdups ys) @ [x]" for ys
    by (induction ys) auto
  have "rev (remdups (rev (x # xs))) = x # filter (\<lambda>y. y \<noteq> x) (rev (remdups (rev xs)))"
    by (simp add: last rev_filter)
  then show ?case
    using Cons.IH[of seen] Cons.IH[of "x # seen"]
    by (auto simp: conj_commute intro: filter_cong)
qed

lemma fromkeys_first_seen: "fromkeys [] xs = rev (remdups (rev xs))"
  by (simp add: fromkeys_filter)

lemma fromkeys_distinct: "distinct (fromkeys [] xs)"
  by (simp add: fromkeys_first_seen)

lemma fromkeys_set: "set (fromkeys [] xs) = set xs"
  by (simp add: fromkeys_first_seen)

lemma anchors_loop_hosts:
  assumes "anchors_loop U base_url domain keywords as matches = Inr result"
    and "\<forall>u \<in> set matches. \<exists>nl. netloc U u = Inr nl \<and> (nl = [] \<or> nl = domain)"
  shows "\<forall>u \<in> set result. \<exists>nl. netloc U u = Inr nl \<and> (nl = [] \<or> nl = domain)"
  using assms
proof (induction as arbitrary: matches)
  case Nil
  then show ?case by simp
next
  case (Cons a as)
  show ?case
  proof (cases "\<exists>h abs_url nl t. get_href a = Inr (Some h) \<and> h \<noteq> [] \<and> inner_text a = Inr t
                  \<and> urljoin U base_url h = Inr abs_url \<and> netloc U abs_url = Inr nl
                  \<and> (nl = [] \<or> nl = domain) \<and> any_kw keywords (lower h @ '' '' @ lower t)")
    case True
    then obtain h abs_url nl t where a: "get_href a = Inr (Some h)" "h \<noteq> []"
      "inner_text a = Inr t" "urljoin U base_url h = Inr abs_url" "netloc U abs_url = Inr nl"
      "nl = [] \<or> nl = domain" "any_kw keywords (lower h @ '' '' @ lower t)"
      by blast
    then have step: "anchors_loop U base_url domain keywords (a # as) matches
            = anchors_loop U base_url domain keywords as (matches @ [abs_url])"
      by auto
    have "\<forall>u \<in> set (matches @ [abs_url]). \<exists>nl. netloc U u = Inr nl \<and> (nl = [] \<or> nl = domain)"
      using Cons.prems(2) a(5,6) by auto
    with Cons.IH[of "matches @ [abs_url]"] Cons.prems(1) step show ?thesis by simp
  next
    case False
    then have "anchors_loop U base_url domain keywords (a # as) matches = Inr result
            \<Longrightarrow> anchors_loop U base_url domain keywords as matches = Inr result"
      by (auto split: sum.splits option.splits if_splits)
    with Cons.IH[of matches] Cons.prems show ?thesis by blast
  qed
qed

lemma anchors_loop_no_keywords:
  "anchors_loop U base_url domain [] as matches = Inr result \<Longrightarrow> result = matches"
  by (induction as arbitrary: matches)
     (auto simp: any_kw_def split: sum.splits option.splits if_splits)

text \<open>
  Claim C7, as amended. For every page, base URL and category, \<open>associate_links\<close>
  returns at most 5 URLs, without duplicates, and the network location of every returned
  URL is empty or equal to the base URL's; when collecting the matches raises nothing, the
  result is the first five of the matches with only the first occurrence of each kept.
\<close>

theorem associate_links_same_site:
  "length (associate_links U anchors base_url category) \<le> 5
   \<and> distinct (associate_links U anchors base_url category)
   \<and> (\<forall>u \<in> set (associate_links U anchors base_url category).
         \<exists>nl. netloc U u = Inr nl \<and> (nl = [] \<or> netloc U base_url = Inr nl))
   \<and> (\<forall>matches. collect_matches U anchors base_url category = Inr matches \<longrightarrow>
         associate_links U anchors base_url category = take 5 (rev (remdups (rev matches))))"
proof (cases "collect_matches U anchors base_url category")
  case (Inl e)
  then show ?thesis by (simp add: associate_links_def)
next
  case (Inr matches)
  then have res: "associate_links U anchors base_url category = take 5 (fromkeys [] matches)"
    by (simp add: associate_links_def)
  from Inr obtain anchs domain kws where
    d: "netloc U base_url = Inr domain"
    and loop: "anchors_loop U base_url domain kws anchs [] = Inr matches"
    by (auto simp: collect_matches_def split: sum.splits)
  have hosts: "\<forall>u \<in> set matches. \<exists>nl. netloc U u = Inr nl \<and> (nl = [] \<or> nl = domain)"
    using anchors_loop_hosts[OF loop] by simp
  have sub: "set (take 5 (fromkeys [] matches)) \<subseteq> set matches"
    using set_take_subset[of 5 "fromkeys [] matches"] by (simp add: fromkeys_set)
  have a: "length (associate_links U anchors base_url category) \<le> 5"
    by (simp add: res)
  have b: "distinct (associate_links U anchors base_url category)"
    by (simp add: res fromkeys_distinct distinct_take)
  have c: "\<forall>u \<in> set (associate_links U anchors base_url category).
         \<exists>nl. netloc U u = Inr nl \<and> (nl = [] \<or> netloc U base_url = Inr nl)"
    using hosts sub d unfolding res by fastforce
  have e: "\<forall>ms. collect_matches U anchors base_url category = Inr ms \<longrightarrow>
         associate_links U anchors base_url category = take 5 (rev (remdups (rev ms)))"
    using Inr res by (simp add: fromkeys_first_seen)
  from a b c e show ?thesis by blast
qed

theorem associate_links_same_site_witness:
  "length (associate_links absolute_urllib
             (Inr [mail_anchor, contact_anchor, elsewhere_anchor, contact_anchor])
             ''https://example.com/'' (JStr ''Contact/Support'')) \<le> 5
   \<and> distinct (associate_links absolute_urllib
             (Inr [mail_anchor, contact_anchor, elsewhere_anchor, contact_anchor])
             ''https://example.com/'' (JStr ''Contact/Support''))
   \<and> (\<exists>nl. netloc absolute_urllib ''https://example.com/contact'' = Inr nl
          \<and> (nl = [] \<or> netloc absolute_urllib ''https://example.com/'' = Inr nl))
   \<and> associate_links absolute_urllib
             (Inr [mail_anchor, contact_anchor, elsewhere_anchor, contact_anchor])
             ''https://example.com/'' (JStr ''Contact/Support'')
       = take 5 (rev (remdups (rev [''mailto:support@example.com'',
            ''https://example.com/contact'', ''https://example.com/contact''])))"
proof -
  let ?as = "Inr [mail_anchor, contact_anchor, elsewhere_anchor, contact_anchor]"
  let ?links = "associate_links absolute_urllib ?as ''https://example.com/''
                  (JStr ''Contact/Support'')"
  note t = associate_links_same_site[of absolute_urllib ?as "''https://example.com/''"
             "JStr ''Contact/Support''"]
  have links: "?links = [''mailto:support@example.com'', ''https://example.com/contact'']"
    by code_simp
  have ms: "collect_matches absolute_urllib ?as ''https://example.com/''
              (JStr ''Contact/Support'')
            = Inr [''mailto:support@example.com'', ''https://example.com/contact'',
                   ''https://example.com/contact'']"
    by code_simp
  have "''https://example.com/contact'' \<in> set ?links" unfolding links by simp
  with t have c: "\<exists>nl. netloc absolute_urllib ''https://example.com/contact'' = Inr nl
          \<and> (nl = [] \<or> netloc absolute_urllib ''https://example.com/'' = Inr nl)"
    by blast
  from t ms have e: "?links = take 5 (rev (remdups (rev [''mailto:support@example.com'',
            ''https://example.com/contact'', ''https://example.com/contact''])))"
    by blast
  from t c e show ?thesis by blast
qed

text \<open>
  The claim as stated fails on an anchor to \<open>mailto:support@example.com\<close>: the reference
  has no network location, so the guard \<open>parsed.netloc and parsed.netloc != domain\<close>
  keeps it, and its host is not that of the base URL.
\<close>

theorem associate_links_mailto_counterexample:
  "associate_links absolute_urllib (Inr [mail_anchor]) ''https://example.com/''
      (JStr ''Contact/Support'') = [''mailto:support@example.com'']
   \<and> netloc absolute_urllib ''mailto:support@example.com'' = Inr []
   \<and> netloc absolute_urllib ''https://example.com/'' = Inr ''example.com''"
  by code_simp

section \<open>Categories without keywords\<close>

lemma heading_tier_no_keywords: "heading_tier sp [] hs = []"
proof -
  have d: "div_tier sp [] cs = []" for cs
    by (induction cs) (auto simp: any_kw_Nil split: option.splits)
  have "article_tier sp [] = []"
    by (auto simp: article_tier_def main_tier_def Let_def any_kw_Nil d split: option.splits)
  then show ?thesis by (induction hs) (auto simp: any_kw_Nil)
qed

lemma extract_snippet_no_keywords:
  "category_keywords name = Inr [] \<Longrightarrow> extract_snippet P html name = Inr []"
  by (simp add: extract_snippet_def Let_def heading_tier_no_keywords)

lemma associate_links_no_keywords:
  "category_keywords name = Inr [] \<Longrightarrow> associate_links U anchors base_url name = []"
  by (auto simp: associate_links_def collect_matches_def split: sum.splits
        dest: anchors_loop_no_keywords)

lemma assemble_keywords:
  assumes "assemble S pg html final_url cats acc = Inr sc"
    and "\<forall>e \<in> set acc. \<exists>K. category_keywords (fst e) = Inr K \<and> K \<noteq> []"
  shows "\<forall>e \<in> set sc. \<exists>K. category_keywords (fst e) = Inr K \<and> K \<noteq> []"
  using assms
proof (induction cats arbitrary: acc)
  case Nil
  then show ?case by simp
next
  case (Cons cat cats)
  from Cons.prems(1) obtain name snippet where
    n: "subscript cat ''category_name'' = Inr name"
    and sn: "extract_snippet (parse S) html name = Inr snippet"
    by (auto split: sum.splits)
  let ?links = "associate_links (lib S) (query_anchors pg) final_url name"
  show ?case
  proof (cases "snippet \<noteq> [] \<or> ?links \<noteq> []")
    case True
    from sn obtain K where K: "category_keywords name = Inr K"
      by (auto simp: extract_snippet_def Let_def split: sum.splits)
    have "K \<noteq> []"
      using True K sn extract_snippet_no_keywords[of name "parse S" html]
        associate_links_no_keywords[of name "lib S" "query_anchors pg" final_url]
      by auto
    with K have "\<forall>e \<in> set (acc @ [(name, snippet, ?links)]).
                   \<exists>K. category_keywords (fst e) = Inr K \<and> K \<noteq> []"
      using Cons.prems(2) by auto
    moreover have "assemble S pg html final_url cats (acc @ [(name, snippet, ?links)]) = Inr sc"
      using Cons.prems(1) n sn True by (simp add: Let_def)
    ultimately show ?thesis using Cons.IH by blast
  next
    case False
    then have "assemble S pg html final_url cats acc = Inr sc"
      using Cons.prems(1) n sn by (simp add: Let_def)
    with Cons.IH Cons.prems(2) show ?thesis by blast
  qed
qed

lemma analyze_try_content:
  assumes "analyze_try S url w = (Inr r, w')" and "errors r = None"
  shows "\<exists>pg html final_url cats. assemble S pg html final_url cats [] = Inr (content r)"
  using assms
  by (auto simp: analyze_try_def Let_def failure_def
        split: sum.splits option.splits if_splits prod.splits) blast

text \<open>
  Claim C10. The category \<open>Other\<close> and every name that is not a key of
  \<open>CATEGORY_KEYWORDS\<close> have the empty keyword list. For every category with the empty
  keyword list, \<open>extract_snippet\<close> returns the empty string and \<open>associate_links\<close>
  the empty list, on every markup and page. Every entry of the content list of a result
  without error has a category with a non-empty keyword list.
\<close>

theorem empty_keywords_never_listed:
  "category_keywords (JStr ''Other'') = Inr []
   \<and> (c \<notin> fst ` set CATEGORY_KEYWORDS \<longrightarrow> category_keywords (JStr c) = Inr [])
   \<and> (category_keywords name = Inr [] \<longrightarrow>
         extract_snippet P html name = Inr []
       \<and> associate_links U anchors base_url name = [])
   \<and> (errors (fst (analyze_url S url w)) = None \<longrightarrow>
         (\<forall>e \<in> set (content (fst (analyze_url S url w))).
            \<exists>K. category_keywords (fst e) = Inr K \<and> K \<noteq> []))"
proof -
  have a: "category_keywords (JStr ''Other'') = Inr []"
    by (simp add: CATEGORY_KEYWORDS_def)
  have b: "c \<notin> fst ` set CATEGORY_KEYWORDS \<longrightarrow> category_keywords (JStr c) = Inr []"
    by (auto simp: map_of_eq_None_iff[symmetric] simp del: map_of_eq_None_iff)
  have d: "\<forall>e \<in> set (content (fst (analyze_url S url w))).
            \<exists>K. category_keywords (fst e) = Inr K \<and> K \<noteq> []"
    if ok: "errors (fst (analyze_url S url w)) = None"
  proof -
    obtain out w' where t: "analyze_try S url w = (out, w')" by (cases "analyze_try S url w")
    show ?thesis
    proof (cases out)
      case (Inl e)
      with t ok show ?thesis by (simp add: analyze_url_def failure_def)
    next
      case (Inr r)
      with t have r: "fst (analyze_url S url w) = r" by (simp add: analyze_url_def)
      with ok t Inr analyze_try_content[of S url w r w'] obtain pg html final_url cats
        where "assemble S pg html final_url cats [] = Inr (content r)" by auto
      from assemble_keywords[OF this] r show ?thesis by simp
    qed
  qed
  from a b d extract_snippet_no_keywords associate_links_no_keywords show ?thesis by blast
qed

theorem empty_keywords_never_listed_witness:
  "extract_snippet about_page ''<h2>About Us</h2><p>We build things.</p>'' (JStr ''Other'')
     = Inr []
   \<and> associate_links absolute_urllib (Inr [contact_anchor]) ''https://example.com/''
       (JStr ''Partners'') = []
   \<and> (\<exists>K. category_keywords
           (fst (hd (content (fst (analyze_url good_site ''https://example.com/'' fresh_world)))))
           = Inr K \<and> K \<noteq> [])"
proof -
  have run: "fst (analyze_url good_site ''https://example.com/'' fresh_world) =
      \<lparr>URL = ''https://example.com/'', site_type = JStr ''company'',
       extracted_web_content = ''About Us We build things.'',
       content = [(JStr ''About Us'', ''We build things.'', [])], errors = None\<rparr>"
    by code_simp
  have o: "category_keywords (JStr ''Other'') = Inr []"
    using empty_keywords_never_listed by blast
  have "''Partners'' \<notin> fst ` set CATEGORY_KEYWORDS" by (simp add: CATEGORY_KEYWORDS_def)
  then have p: "category_keywords (JStr ''Partners'') = Inr []"
    using empty_keywords_never_listed[of "''Partners''"] by blast
  from o have a: "extract_snippet about_page ''<h2>About Us</h2><p>We build things.</p>''
      (JStr ''Other'') = Inr []"
    using empty_keywords_never_listed[where name="JStr ''Other''"] by blast
  from p have b: "associate_links absolute_urllib (Inr [contact_anchor])
      ''https://example.com/'' (JStr ''Partners'') = []"
    using empty_keywords_never_listed[where name="JStr ''Partners''"] by blast
  have "\<forall>e \<in> set (content (fst (analyze_url good_site ''https://example.com/'' fresh_world))).
            \<exists>K. category_keywords (fst e) = Inr K \<and> K \<noteq> []"
    using empty_keywords_never_listed[of _ _ _ _ _ _ _ good_site "''https://example.com/''"
            fresh_world]
    by (simp add: run)
  then have c: "\<exists>K. category_keywords
           (fst (hd (content (fst (analyze_url good_site ''https://example.com/'' fresh_world)))))
           = Inr K \<and> K \<noteq> []"
    by (simp add: run)
  from a b c show ?thesis by blast
qed

section \<open>Retries of the classification calls\<close>

lemma sleeps_frame:
  "rate_limiter (foldl (\<lambda>v d. sleep d v) w ds) = rate_limiter w"
  "llm_calls (foldl (\<lambda>v d. sleep d v) w ds) = llm_calls w"
  "draws (foldl (\<lambda>v d. sleep d v) w ds) = draws w"
  "calls (foldl (\<lambda>v d. sleep d v) w ds) = calls w"
  "open_pages (foldl (\<lambda>v d. sleep d v) w ds) = open_pages w"
  by (induction ds arbitrary: w; simp add: sleep_def)+

lemma cooldown_step_error_count:
  "error_count (snd (cooldown_step now th)) = error_count th"
  by (simp add: cooldown_step_def split: option.splits)

lemma wait_if_needed_frame:
  "max_requests_per_minute (snd (snd (wait_if_needed now th))) = max_requests_per_minute th"
  "error_count (snd (snd (wait_if_needed now th))) = error_count th"
  by (simp_all add: wait_if_needed_def Let_def split_beta cooldown_step_frame
        cooldown_step_error_count)

lemma wait_if_needed_positive_cap:
  "0 < max_requests_per_minute th \<Longrightarrow> fst (snd (wait_if_needed now th)) = None"
  by (simp add: wait_if_needed_def Let_def split_beta cooldown_step_frame)

lemma await_slot_frame:
  "llm_calls (snd (await_slot w)) = llm_calls w"
  "calls (snd (await_slot w)) = calls w @ [Wait]"
  "open_pages (snd (await_slot w)) = open_pages w"
  "max_requests_per_minute (rate_limiter (snd (await_slot w)))
     = max_requests_per_minute (rate_limiter w)"
  "error_count (rate_limiter (snd (await_slot w))) = error_count (rate_limiter w)"
  by (simp_all add: await_slot_def Let_def split_beta sleeps_frame wait_if_needed_frame)

lemma await_slot_positive_cap:
  "0 < max_requests_per_minute (rate_limiter w) \<Longrightarrow> fst (await_slot w) = None"
  by (simp add: await_slot_def Let_def split_beta wait_if_needed_positive_cap)

lemma invoke_frame:
  "fst (invoke I prompt w) = snd (llm_invoke I (llm_calls w) prompt)"
  "llm_calls (snd (invoke I prompt w)) = llm_calls w + 1"
  "calls (snd (invoke I prompt w)) = calls w @ [Invoke]"
  "open_pages (snd (invoke I prompt w)) = open_pages w"
  "rate_limiter (snd (invoke I prompt w)) = rate_limiter w"
  by (simp_all add: invoke_def Let_def split_beta)

lemma record_success_frame:
  "llm_calls (record_success w) = llm_calls w"
  "calls (record_success w) = calls w @ [Record]"
  "open_pages (record_success w) = open_pages w"
  "max_requests_per_minute (rate_limiter (record_success w))
     = max_requests_per_minute (rate_limiter w)"
  "error_count (rate_limiter (record_success w)) = 0"
  by (simp_all add: record_success_def record_request_def reset_backoff_def)

lemma back_off_frame:
  "llm_calls (snd (back_off I w)) = llm_calls w"
  "calls (snd (back_off I w)) = calls w @ [Backoff]"
  "open_pages (snd (back_off I w)) = open_pages w"
  "max_requests_per_minute (rate_limiter (snd (back_off I w)))
     = max_requests_per_minute (rate_limiter w)"
  by (simp_all add: back_off_def backoff_def sleep_def Let_def split: sum.splits)

lemma back_off_sleeps:
  "error_count (rate_limiter w) < 1024 \<Longrightarrow>
     fst (back_off I w) = None
     \<and> error_count (rate_limiter (snd (back_off I w))) = error_count (rate_limiter w) + 1"
  by (simp add: back_off_def backoff_def backoff_delay_def sleep_def Let_def)

lemma back_off_raises:
  "1024 \<le> error_count (rate_limiter w) \<Longrightarrow>
     fst (back_off I w) = Some (OverflowError ''int too large to convert to float'')"
  by (simp add: back_off_def backoff_def backoff_delay_def Let_def)

lemma categories_attempt_raises:
  assumes cap: "0 < max_requests_per_minute (rate_limiter w)"
    and ec: "error_count (rate_limiter w) < 1024"
    and raises: "isl (categories_try I (llm_calls w) (categories_prompt t))"
  shows "\<exists>w1. categories_attempts I t (Suc n) w = categories_attempts I t n w1
           \<and> llm_calls w1 = llm_calls w + 1
           \<and> max_requests_per_minute (rate_limiter w1)
               = max_requests_per_minute (rate_limiter w)
           \<and> error_count (rate_limiter w1) \<le> error_count (rate_limiter w) + 1
           \<and> calls w1 = calls w @ categories_events I (categories_prompt t) (llm_calls w)"
proof -
  obtain w1 where a: "await_slot w = (None, w1)"
    using await_slot_positive_cap[OF cap] by (cases "await_slot w") auto
  have w1: "llm_calls w1 = llm_calls w" "calls w1 = calls w @ [Wait]"
    "max_requests_per_minute (rate_limiter w1) = max_requests_per_minute (rate_limiter w)"
    "error_count (rate_limiter w1) = error_count (rate_limiter w)"
    using await_slot_frame[of w] a by simp_all
  obtain out w2 where i: "invoke I (categories_prompt t) w1 = (out, w2)"
    by (cases "invoke I (categories_prompt t) w1")
  have w2: "snd (llm_invoke I (llm_calls w) (categories_prompt t)) = out"
    "llm_calls w2 = llm_calls w + 1" "calls w2 = calls w @ [Wait, Invoke]"
    "max_requests_per_minute (rate_limiter w2) = max_requests_per_minute (rate_limiter w)"
    "error_count (rate_limiter w2) = error_count (rate_limiter w)"
    using invoke_frame[of I "categories_prompt t" w1] i w1 by simp_all
  show ?thesis
  proof (cases out)
    case (Inl e)
    obtain w3 where b: "back_off I w2 = (None, w3)"
      and w3: "error_count (rate_limiter w3) = error_count (rate_limiter w2) + 1"
      using back_off_sleeps[of w2 I] ec w2(5) by (cases "back_off I w2") auto
    have "categories_attempts I t (Suc n) w = categories_attempts I t n w3"
      using a i Inl b by simp
    moreover have "calls w3 = calls w @ categories_events I (categories_prompt t) (llm_calls w)"
      using back_off_frame(2)[of I w2] b w2(1,3) Inl
      by (simp add: categories_events_def attempt_events_def categories_try_def)
    ultimately show ?thesis
      using back_off_frame(1,4)[of I w2] b w2 w3 by auto
  next
    case (Inr response)
    from raises obtain fragment where
      f: "search_span (CHR ''['') (CHR '']'') (strip response) = Some fragment"
      and "isl (loads_array I fragment)"
      by (auto simp: categories_try_def w2(1) Inr split: option.splits sum.splits)
    then obtain e where l: "loads_array I fragment = Inl e"
      by (cases "loads_array I fragment") auto
    let ?w = "record_success w2"
    have "error_count (rate_limiter ?w) < 1024" by (simp add: record_success_frame)
    then obtain w3 where b: "back_off I ?w = (None, w3)"
      and w3: "error_count (rate_limiter w3) = error_count (rate_limiter ?w) + 1"
      using back_off_sleeps[of ?w I] by (cases "back_off I ?w") auto
    have "categories_attempts I t (Suc n) w = categories_attempts I t n w3"
      using a i Inr f l b by simp
    moreover have "calls w3 = calls w @ categories_events I (categories_prompt t) (llm_calls w)"
      using back_off_frame(2)[of I ?w] b w2(1,3) Inr f l
      by (simp add: categories_events_def attempt_events_def categories_try_def
            record_success_frame)
    ultimately show ?thesis
      using back_off_frame(1,4)[of I ?w] b w2 w3 by (auto simp: record_success_frame)
  qed
qed

lemma categories_attempt_returns:
  assumes cap: "0 < max_requests_per_minute (rate_limiter w)"
    and returns: "\<not> isl (categories_try I (llm_calls w) (categories_prompt t))"
  shows "\<exists>w1. categories_attempts I t (Suc n) w
                 = (categories_try I (llm_calls w) (categories_prompt t), w1)
           \<and> llm_calls w1 = llm_calls w + 1
           \<and> calls w1 = calls w @ categories_events I (categories_prompt t) (llm_calls w)"
proof -
  obtain w1 where a: "await_slot w = (None, w1)"
    using await_slot_positive_cap[OF cap] by (cases "await_slot w") auto
  have w1: "llm_calls w1 = llm_calls w" "calls w1 = calls w @ [Wait]"
    using await_slot_frame[of w] a by simp_all
  obtain out w2 where i: "invoke I (categories_prompt t) w1 = (out, w2)"
    by (cases "invoke I (categories_prompt t) w1")
  have w2: "snd (llm_invoke I (llm_calls w) (categories_prompt t)) = out"
    "llm_calls w2 = llm_calls w + 1" "calls w2 = calls w @ [Wait, Invoke]"
    using invoke_frame[of I "categories_prompt t" w1] i w1 by simp_all
  from returns obtain response where r: "out = Inr response"
    by (cases out) (auto simp: categories_try_def w2(1))
  have "categories_attempts I t (Suc n) w
          = (categories_try I (llm_calls w) (categories_prompt t), record_success w2)"
    using a i r returns
    by (auto simp: categories_try_def w2(1) split: option.splits sum.splits)
  moreover have "calls (record_success w2)
                   = calls w @ categories_events I (categories_prompt t) (llm_calls w)"
    using returns r
    by (simp add: categories_events_def attempt_events_def w2(1,3) record_success_frame)
  ultimately show ?thesis by (simp add: record_success_frame w2)
qed

lemma categories_attempts_run:
  assumes "0 < max_requests_per_minute (rate_limiter w)"
    and "error_count (rate_limiter w) + n \<le> 1024"
    and "k \<le> n"
    and "\<forall>i<k. isl (categories_try I (llm_calls w + i) (categories_prompt t))"
    and "k < n \<longrightarrow> \<not> isl (categories_try I (llm_calls w + k) (categories_prompt t))"
  shows "\<exists>w'. categories_attempts I t n w
                 = ((if k < n then categories_try I (llm_calls w + k) (categories_prompt t)
                     else Inr []), w')
           \<and> llm_calls w' = llm_calls w + min (Suc k) n
           \<and> calls w' = calls w @ concat (map (categories_events I (categories_prompt t))
                                            [llm_calls w ..< llm_calls w + min (Suc k) n])"
  using assms
proof (induction n arbitrary: w k)
  case 0
  then show ?case by simp
next
  case (Suc n)
  show ?case
  proof (cases k)
    case 0
    with Suc.prems(5) have "\<not> isl (categories_try I (llm_calls w) (categories_prompt t))"
      by simp
    from categories_attempt_returns[OF Suc.prems(1) this, of n] 0 show ?thesis
      by (auto simp: upt_conv_Cons)
  next
    case (Suc j)
    with Suc.prems(4) have r: "isl (categories_try I (llm_calls w) (categories_prompt t))"
      using Suc.prems(4)[rule_format, of 0] by simp
    have ec: "error_count (rate_limiter w) < 1024" using Suc.prems(2) by simp
    from categories_attempt_raises[OF Suc.prems(1) ec r, of n] obtain w1 where
      s: "categories_attempts I t (Suc n) w = categories_attempts I t n w1"
      and w1: "llm_calls w1 = llm_calls w + 1"
        "max_requests_per_minute (rate_limiter w1) = max_requests_per_minute (rate_limiter w)"
        "error_count (rate_limiter w1) \<le> error_count (rate_limiter w) + 1"
        "calls w1 = calls w @ categories_events I (categories_prompt t) (llm_calls w)"
      by blast
    have p1: "0 < max_requests_per_minute (rate_limiter w1)" using w1(2) Suc.prems(1) by simp
    have p2: "error_count (rate_limiter w1) + n \<le> 1024" using w1(3) Suc.prems(2) by simp
    have p3: "j \<le> n" using Suc.prems(3) Suc by simp
    have p4: "\<forall>i<j. isl (categories_try I (llm_calls w1 + i) (categories_prompt t))"
    proof (intro allI impI)
      fix i assume "i < j"
      then have "Suc i < k" using Suc by simp
      from Suc.prems(4)[rule_format, OF this] show
        "isl (categories_try I (llm_calls w1 + i) (categories_prompt t))"
        by (simp add: w1(1))
    qed
    have p5: "j < n \<longrightarrow> \<not> isl (categories_try I (llm_calls w1 + j) (categories_prompt t))"
      using Suc.prems(5) Suc by (simp add: w1(1))
    from Suc.IH[OF p1 p2 p3 p4 p5] obtain w' where
      r': "categories_attempts I t n w1
             = ((if j < n then categories_try I (llm_calls w1 + j) (categories_prompt t)
                 else Inr []), w')"
        "llm_calls w' = llm_calls w1 + min (Suc j) n"
        "calls w' = calls w1 @ concat (map (categories_events I (categories_prompt t))
                                         [llm_calls w1 ..< llm_calls w1 + min (Suc j) n])"
      by blast
    have upt: "[llm_calls w ..< llm_calls w + min (Suc k) (Suc n)]
                 = llm_calls w # [llm_calls w1 ..< llm_calls w1 + min (Suc j) n]"
      using Suc by (simp add: w1(1) upt_conv_Cons)
    show ?thesis
      unfolding s upt using r' Suc by (simp add: w1)
  qed
qed

lemma site_type_attempt_raises:
  assumes cap: "0 < max_requests_per_minute (rate_limiter w)"
    and ec: "error_count (rate_limiter w) < 1024"
    and raises: "isl (site_type_try I (llm_calls w) (site_type_prompt t))"
  shows "\<exists>w1. site_type_attempts I t (Suc n) w = site_type_attempts I t n w1
           \<and> llm_calls w1 = llm_calls w + 1
           \<and> max_requests_per_minute (rate_limiter w1)
               = max_requests_per_minute (rate_limiter w)
           \<and> error_count (rate_limiter w1) \<le> error_count (rate_limiter w) + 1
           \<and> calls w1 = calls w @ site_type_events I (site_type_prompt t) (llm_calls w)"
proof -
  obtain w1 where a: "await_slot w = (None, w1)"
    using await_slot_positive_cap[OF cap] by (cases "await_slot w") auto
  have w1: "llm_calls w1 = llm_calls w" "calls w1 = calls w @ [Wait]"
    "max_requests_per_minute (rate_limiter w1) = max_requests_per_minute (rate_limiter w)"
    "error_count (rate_limiter w1) = error_count (rate_limiter w)"
    using await_slot_frame[of w] a by simp_all
  obtain out w2 where i: "invoke I (site_type_prompt t) w1 = (out, w2)"
    by (cases "invoke I (site_type_prompt t) w1")
  have w2: "snd (llm_invoke I (llm_calls w) (site_type_prompt t)) = out"
    "llm_calls w2 = llm_calls w + 1" "calls w2 = calls w @ [Wait, Invoke]"
    "max_requests_per_minute (rate_limiter w2) = max_requests_per_minute (rate_limiter w)"
    "error_count (rate_limiter w2) = error_count (rate_limiter w)"
    using invoke_frame[of I "site_type_prompt t" w1] i w1 by simp_all
  show ?thesis
  proof (cases out)
    case (Inl e)
    obtain w3 where b: "back_off I w2 = (None, w3)"
      and w3: "error_count (rate_limiter w3) = error_count (rate_limiter w2) + 1"
      using back_off_sleeps[of w2 I] ec w2(5) by (cases "back_off I w2") auto
    have "site_type_attempts I t (Suc n) w = site_type_attempts I t n w3"
      using a i Inl b by simp
    moreover have "calls w3 = calls w @ site_type_events I (site_type_prompt t) (llm_calls w)"
      using back_off_frame(2)[of I w2] b w2(1,3) Inl
      by (simp add: site_type_events_def attempt_events_def site_type_try_def)
    ultimately show ?thesis
      using back_off_frame(1,4)[of I w2] b w2 w3 by auto
  next
    case (Inr response)
    from raises obtain fragment where
      f: "search_span (CHR 0x7B) (CHR 0x7D) (strip response) = Some fragment"
      and "isl (loads_object I fragment)"
      by (auto simp: site_type_try_def w2(1) Inr split: option.splits sum.splits)
    then obtain e where l: "loads_object I fragment = Inl e"
      by (cases "loads_object I fragment") auto
    let ?w = "record_success w2"
    have "error_count (rate_limiter ?w) < 1024" by (simp add: record_success_frame)
    then obtain w3 where b: "back_off I ?w = (None, w3)"
      and w3: "error_count (rate_limiter w3) = error_count (rate_limiter ?w) + 1"
      using back_off_sleeps[of ?w I] by (cases "back_off I ?w") auto
    have "site_type_attempts I t (Suc n) w = site_type_attempts I t n w3"
      using a i Inr f l b by simp
    moreover have "calls w3 = calls w @ site_type_events I (site_type_prompt t) (llm_calls w)"
      using back_off_frame(2)[of I ?w] b w2(1,3) Inr f l
      by (simp add: site_type_events_def attempt_events_def site_type_try_def
            record_success_frame)
    ultimately show ?thesis
      using back_off_frame(1,4)[of I ?w] b w2 w3 by (auto simp: record_success_frame)
  qed
qed

lemma site_type_attempt_returns:
  assumes cap: "0 < max_requests_per_minute (rate_limiter w)"
    and returns: "\<not> isl (site_type_try I (llm_calls w) (site_type_prompt t))"
  shows "\<exists>w1. site_type_attempts I t (Suc n) w
                 = (site_type_try I (llm_calls w) (site_type_prompt t), w1)
           \<and> llm_calls w1 = llm_calls w + 1
           \<and> calls w1 = calls w @ site_type_events I (site_type_prompt t) (llm_calls w)"
proof -
  obtain w1 where a: "await_slot w = (None, w1)"
    using await_slot_positive_cap[OF cap] by (cases "await_slot w") auto
  have w1: "llm_calls w1 = llm_calls w" "calls w1 = calls w @ [Wait]"
    using await_slot_frame[of w] a by simp_all
  obtain out w2 where i: "invoke I (site_type_prompt t) w1 = (out, w2)"
    by (cases "invoke I (site_type_prompt t) w1")
  have w2: "snd (llm_invoke I (llm_calls w) (site_type_prompt t)) = out"
    "llm_calls w2 = llm_calls w + 1" "calls w2 = calls w @ [Wait, Invoke]"
    using invoke_frame[of I "site_type_prompt t" w1] i w1 by simp_all
  from returns obtain response where r: "out = Inr response"
    by (cases out) (auto simp: site_type_try_def w2(1))
  have "site_type_attempts I t (Suc n) w
          = (site_type_try I (llm_calls w) (site_type_prompt t), record_success w2)"
    using a i r returns
    by (auto simp: site_type_try_def w2(1) split: option.splits sum.splits)
  moreover have "calls (record_success w2)
                   = calls w @ site_type_events I (site_type_prompt t) (llm_calls w)"
    using returns r
    by (simp add: site_type_events_def attempt_events_def w2(1,3) record_success_frame)
  ultimately show ?thesis by (simp add: record_success_frame w2)
qed

lemma site_type_attempts_run:
  assumes "0 < max_requests_per_minute (rate_limiter w)"
    and "error_count (rate_limiter w) + n \<le> 1024"
    and "k \<le> n"
    and "\<forall>i<k. isl (site_type_try I (llm_calls w + i) (site_type_prompt t))"
    and "k < n \<longrightarrow> \<not> isl (site_type_try I (llm_calls w + k) (site_type_prompt t))"
  shows "\<exists>w'. site_type_attempts I t n w
                 = ((if k < n then site_type_try I (llm_calls w + k) (site_type_prompt t)
                     else Inr (JStr ''other'')), w')
           \<and> llm_calls w' = llm_calls w + min (Suc k) n
           \<and> calls w' = calls w @ concat (map (site_type_events I (site_type_prompt t))
                                            [llm_calls w ..< llm_calls w + min (Suc k) n])"
  using assms
proof (induction n arbitrary: w k)
  case 0
  then show ?case by simp
next
  case (Suc n)
  show ?case
  proof (cases k)
    case 0
    with Suc.prems(5) have "\<not> isl (site_type_try I (llm_calls w) (site_type_prompt t))"
      by simp
    from site_type_attempt_returns[OF Suc.prems(1) this, of n] 0 show ?thesis
      by (auto simp: upt_conv_Cons)
  next
    case (Suc j)
    with Suc.prems(4) have r: "isl (site_type_try I (llm_calls w) (site_type_prompt t))"
      using Suc.prems(4)[rule_format, of 0] by simp
    have ec: "error_count (rate_limiter w) < 1024" using Suc.prems(2) by simp
    from site_type_attempt_raises[OF Suc.prems(1) ec r, of n] obtain w1 where
      s: "site_type_attempts I t (Suc n) w = site_type_attempts I t n w1"
      and w1: "llm_calls w1 = llm_calls w + 1"
        "max_requests_per_minute (rate_limiter w1) = max_requests_per_minute (rate_limiter w)"
        "error_count (rate_limiter w1) \<le> error_count (rate_limiter w) + 1"
        "calls w1 = calls w @ site_type_events I (site_type_prompt t) (llm_calls w)"
      by blast
    have p1: "0 < max_requests_per_minute (rate_limiter w1)" using w1(2) Suc.prems(1) by simp
    have p2: "error_count (rate_limiter w1) + n \<le> 1024" using w1(3) Suc.prems(2) by simp
    have p3: "j \<le> n" using Suc.prems(3) Suc by simp
    have p4: "\<forall>i<j. isl (site_type_try I (llm_calls w1 + i) (site_type_prompt t))"
    proof (intro allI impI)
      fix i assume "i < j"
      then have "Suc i < k" using Suc by simp
      from Suc.prems(4)[rule_format, OF this] show
        "isl (site_type_try I (llm_calls w1 + i) (site_type_prompt t))"
        by (simp add: w1(1))
    qed
    have p5: "j < n \<longrightarrow> \<not> isl (site_type_try I (llm_calls w1 + j) (site_type_prompt t))"
      using Suc.prems(5) Suc by (simp add: w1(1))
    from Suc.IH[OF p1 p2 p3 p4 p5] obtain w' where
      r': "site_type_attempts I t n w1
             = ((if j < n then site_type_try I (llm_calls w1 + j) (site_type_prompt t)
                 else Inr (JStr ''other'')), w')"
        "llm_calls w' = llm_calls w1 + min (Suc j) n"
        "calls w' = calls w1 @ concat (map (site_type_events I (site_type_prompt t))
                                         [llm_calls w1 ..< llm_calls w1 + min (Suc j) n])"
      by blast
    have upt: "[llm_calls w ..< llm_calls w + min (Suc k) (Suc n)]
                 = llm_calls w # [llm_calls w1 ..< llm_calls w1 + min (Suc j) n]"
      using Suc by (simp add: w1(1) upt_conv_Cons)
    show ?thesis
      unfolding s upt using r' Suc by (simp add: w1)
  qed
qed

lemma categories_attempts_bound:
  "llm_calls (snd (categories_attempts I t n w)) \<le> llm_calls w + n"
proof (induction n arbitrary: w)
  case 0
  then show ?case by simp
next
  case (Suc n)
  obtain err w1 where a: "await_slot w = (err, w1)" by (cases "await_slot w")
  have w1: "llm_calls w1 = llm_calls w" using await_slot_frame(1)[of w] a by simp
  obtain out w2 where i: "invoke I (categories_prompt t) w1 = (out, w2)"
    by (cases "invoke I (categories_prompt t) w1")
  have w2: "llm_calls w2 = llm_calls w + 1"
    using invoke_frame(2)[of I "categories_prompt t" w1] i w1 by simp
  have b: "llm_calls (snd (categories_attempts I t n w3)) \<le> llm_calls w + Suc n"
    if "llm_calls w3 = llm_calls w2" for w3
    using Suc.IH[of w3] that w2 by simp
  have c: "llm_calls w3 = llm_calls w2"
    if "back_off I v = (r, w3)" "llm_calls v = llm_calls w2" for v r w3
    using back_off_frame(1)[of I v] that by simp
  show ?case
    using a i w1 w2 b c
    by (auto simp: record_success_frame split: option.splits sum.splits prod.splits)
qed

lemma site_type_attempts_bound:
  "llm_calls (snd (site_type_attempts I t n w)) \<le> llm_calls w + n"
proof (induction n arbitrary: w)
  case 0
  then show ?case by simp
next
  case (Suc n)
  obtain err w1 where a: "await_slot w = (err, w1)" by (cases "await_slot w")
  have w1: "llm_calls w1 = llm_calls w" using await_slot_frame(1)[of w] a by simp
  obtain out w2 where i: "invoke I (site_type_prompt t) w1 = (out, w2)"
    by (cases "invoke I (site_type_prompt t) w1")
  have w2: "llm_calls w2 = llm_calls w + 1"
    using invoke_frame(2)[of I "site_type_prompt t" w1] i w1 by simp
  have b: "llm_calls (snd (site_type_attempts I t n w3)) \<le> llm_calls w + Suc n"
    if "llm_calls w3 = llm_calls w2" for w3
    using Suc.IH[of w3] that w2 by simp
  have c: "llm_calls w3 = llm_calls w2"
    if "back_off I v = (r, w3)" "llm_calls v = llm_calls w2" for v r w3
    using back_off_frame(1)[of I v] that by simp
  show ?case
    using a i w1 w2 b c
    by (auto simp: record_success_frame split: option.splits sum.splits prod.splits)
qed

text \<open>
  Claim C3, as amended. Take a limiter with a positive cap (so that the wait raises
  nothing) and an error count of at most 1021 (so that no \<open>backoff\<close> raises), and let
  \<open>k\<close> be the number of attempts, up to three, that raise inside the \<open>try\<close> before
  one does not: an attempt raises when the inference call raises or when a fragment is
  found and does not decode. Then \<open>get_categories\<close> and \<open>get_site_type\<close> call
  \<open>backoff\<close> after each of these \<open>k\<close> attempts and try again; when \<open>k\<close> is three they
  return their empty value, the empty list or the label \<open>other\<close>, after exactly three
  inference calls, the third followed by \<open>backoff\<close> as well; otherwise they return what
  attempt \<open>k + 1\<close> gives, the decoded value or, when its answer holds no fragment, the
  empty value, after a recorded success, with no \<open>backoff\<close> and no further attempt. The
  calls on the limiter and the model are those of the attempts made, in order. No run
  makes more than three inference calls.
\<close>

theorem classification_retries:
  "(0 < max_requests_per_minute (rate_limiter w) \<and> error_count (rate_limiter w) + 3 \<le> 1024
      \<and> k \<le> 3
      \<and> (\<forall>i<k. isl (categories_try I (llm_calls w + i) (categories_prompt t)))
      \<and> (k < 3 \<longrightarrow> \<not> isl (categories_try I (llm_calls w + k) (categories_prompt t))) \<longrightarrow>
      (\<exists>w'. get_categories I t w
                = ((if k < 3 then categories_try I (llm_calls w + k) (categories_prompt t)
                    else Inr []), w')
          \<and> llm_calls w' = llm_calls w + min (Suc k) 3
          \<and> calls w' = calls w @ concat (map (categories_events I (categories_prompt t))
                                           [llm_calls w ..< llm_calls w + min (Suc k) 3])))
   \<and> (0 < max_requests_per_minute (rate_limiter w) \<and> error_count (rate_limiter w) + 3 \<le> 1024
      \<and> k \<le> 3
      \<and> (\<forall>i<k. isl (site_type_try I (llm_calls w + i) (site_type_prompt t)))
      \<and> (k < 3 \<longrightarrow> \<not> isl (site_type_try I (llm_calls w + k) (site_type_prompt t))) \<longrightarrow>
      (\<exists>w'. get_site_type I t w
                = ((if k < 3 then site_type_try I (llm_calls w + k) (site_type_prompt t)
                    else Inr (JStr ''other'')), w')
          \<and> llm_calls w' = llm_calls w + min (Suc k) 3
          \<and> calls w' = calls w @ concat (map (site_type_events I (site_type_prompt t))
                                           [llm_calls w ..< llm_calls w + min (Suc k) 3])))
   \<and> llm_calls (snd (get_categories I t w)) \<le> llm_calls w + 3
   \<and> llm_calls (snd (get_site_type I t w)) \<le> llm_calls w + 3"
proof -
  note a = categories_attempts_run[of w 3 k I t, folded get_categories_def]
  note b = site_type_attempts_run[of w 3 k I t, folded get_site_type_def]
  have c: "llm_calls (snd (get_categories I t w)) \<le> llm_calls w + 3"
    using categories_attempts_bound[of I t 3 w] by (simp add: get_categories_def)
  have d: "llm_calls (snd (get_site_type I t w)) \<le> llm_calls w + 3"
    using site_type_attempts_bound[of I t 3 w] by (simp add: get_site_type_def)
  from a b c d show ?thesis by blast
qed

lemma transient_events:
  "concat (map (categories_events transient_stub (categories_prompt []))
             [llm_calls fresh_world ..< llm_calls fresh_world + min (Suc 3) 3])
     = three_failed_attempts"
  "concat (map (site_type_events transient_stub (site_type_prompt []))
             [llm_calls fresh_world ..< llm_calls fresh_world + min (Suc 3) 3])
     = three_failed_attempts"
  by code_simp+

lemma prose_events:
  "categories_try prose_stub (llm_calls fresh_world + 0) (categories_prompt []) = Inr []"
  "site_type_try prose_stub (llm_calls fresh_world + 0) (site_type_prompt [])
     = Inr (JStr ''other'')"
  "concat (map (categories_events prose_stub (categories_prompt []))
             [llm_calls fresh_world ..< llm_calls fresh_world + min (Suc 0) 3])
     = [Wait, Invoke, Record]"
  "concat (map (site_type_events prose_stub (site_type_prompt []))
             [llm_calls fresh_world ..< llm_calls fresh_world + min (Suc 0) 3])
     = [Wait, Invoke, Record]"
  by code_simp+

lemma flaky_events:
  "isl (categories_try flaky_stub (llm_calls fresh_world + 0) (categories_prompt []))"
  "categories_try flaky_stub (llm_calls fresh_world + 1) (categories_prompt [])
     = Inr [JObj [(''category_name'', JStr ''About Us'')]]"
  "concat (map (categories_events flaky_stub (categories_prompt []))
             [llm_calls fresh_world ..< llm_calls fresh_world + min (Suc 1) 3])
     = [Wait, Invoke, Backoff, Wait, Invoke, Record]"
  by code_simp+

theorem classification_retries_witness:
  "(\<exists>w'. get_categories transient_stub [] fresh_world = (Inr [], w')
        \<and> llm_calls w' = 3 \<and> calls w' = three_failed_attempts)
   \<and> (\<exists>w'. get_site_type transient_stub [] fresh_world = (Inr (JStr ''other''), w')
        \<and> llm_calls w' = 3 \<and> calls w' = three_failed_attempts)
   \<and> (\<exists>w'. get_categories prose_stub [] fresh_world = (Inr [], w')
        \<and> llm_calls w' = 1 \<and> calls w' = [Wait, Invoke, Record])
   \<and> (\<exists>w'. get_site_type prose_stub [] fresh_world = (Inr (JStr ''other''), w')
        \<and> llm_calls w' = 1 \<and> calls w' = [Wait, Invoke, Record])
   \<and> (\<exists>w'. get_categories flaky_stub [] fresh_world
               = (Inr [JObj [(''category_name'', JStr ''About Us'')]], w')
        \<and> llm_calls w' = 2 \<and> calls w' = [Wait, Invoke, Backoff, Wait, Invoke, Record])"
proof -
  have f: "0 < max_requests_per_minute (rate_limiter fresh_world)"
    "error_count (rate_limiter fresh_world) + 3 \<le> 1024"
    by (simp_all add: fresh_world_def new_throttle_def)
  have z: "llm_calls fresh_world = 0" "calls fresh_world = []"
    by (simp_all add: fresh_world_def)
  have t1: "\<forall>i<3. isl (categories_try transient_stub (llm_calls fresh_world + i)
                         (categories_prompt []))"
    by (simp add: categories_try_def transient_stub_def)
  have t2: "\<forall>i<3. isl (site_type_try transient_stub (llm_calls fresh_world + i)
                         (site_type_prompt []))"
    by (simp add: site_type_try_def transient_stub_def)
  from classification_retries[of fresh_world 3 transient_stub "[]"] f t1
  have "\<exists>w'. get_categories transient_stub [] fresh_world = (Inr [], w')
          \<and> llm_calls w' = llm_calls fresh_world + min (Suc 3) 3
          \<and> calls w' = calls fresh_world
               @ concat (map (categories_events transient_stub (categories_prompt []))
                           [llm_calls fresh_world ..< llm_calls fresh_world + min (Suc 3) 3])"
    by simp
  then have a: "\<exists>w'. get_categories transient_stub [] fresh_world = (Inr [], w')
        \<and> llm_calls w' = 3 \<and> calls w' = three_failed_attempts"
    unfolding transient_events by (simp add: z)
  from classification_retries[of fresh_world 3 transient_stub "[]"] f t2
  have "\<exists>w'. get_site_type transient_stub [] fresh_world = (Inr (JStr ''other''), w')
          \<and> llm_calls w' = llm_calls fresh_world + min (Suc 3) 3
          \<and> calls w' = calls fresh_world
               @ concat (map (site_type_events transient_stub (site_type_prompt []))
                           [llm_calls fresh_world ..< llm_calls fresh_world + min (Suc 3) 3])"
    by simp
  then have b: "\<exists>w'. get_site_type transient_stub [] fresh_world = (Inr (JStr ''other''), w')
        \<and> llm_calls w' = 3 \<and> calls w' = three_failed_attempts"
    unfolding transient_events by (simp add: z)
  have p1: "\<not> isl (categories_try prose_stub (llm_calls fresh_world + 0) (categories_prompt []))"
    "\<not> isl (site_type_try prose_stub (llm_calls fresh_world + 0) (site_type_prompt []))"
    unfolding prose_events by simp_all
  from classification_retries[of fresh_world 0 prose_stub "[]"] f p1(1)
  have "\<exists>w'. get_categories prose_stub [] fresh_world
                = (categories_try prose_stub (llm_calls fresh_world + 0) (categories_prompt []),
                   w')
          \<and> llm_calls w' = llm_calls fresh_world + min (Suc 0) 3
          \<and> calls w' = calls fresh_world
               @ concat (map (categories_events prose_stub (categories_prompt []))
                           [llm_calls fresh_world ..< llm_calls fresh_world + min (Suc 0) 3])"
    by simp
  then have c: "\<exists>w'. get_categories prose_stub [] fresh_world = (Inr [], w')
        \<and> llm_calls w' = 1 \<and> calls w' = [Wait, Invoke, Record]"
    unfolding prose_events by (simp add: z)
  from classification_retries[of fresh_world 0 prose_stub "[]"] f p1(2)
  have "\<exists>w'. get_site_type prose_stub [] fresh_world
                = (site_type_try prose_stub (llm_calls fresh_world + 0) (site_type_prompt []),
                   w')
          \<and> llm_calls w' = llm_calls fresh_world + min (Suc 0) 3
          \<and> calls w' = calls fresh_world
               @ concat (map (site_type_events prose_stub (site_type_prompt []))
                           [llm_calls fresh_world ..< llm_calls fresh_world + min (Suc 0) 3])"
    by simp
  then have d: "\<exists>w'. get_site_type prose_stub [] fresh_world = (Inr (JStr ''other''), w')
        \<and> llm_calls w' = 1 \<and> calls w' = [Wait, Invoke, Record]"
    unfolding prose_events by (simp add: z)
  have k1: "\<forall>i<1. isl (categories_try flaky_stub (llm_calls fresh_world + i)
                         (categories_prompt []))"
    using flaky_events(1) by simp
  have k2: "\<not> isl (categories_try flaky_stub (llm_calls fresh_world + 1) (categories_prompt []))"
    unfolding flaky_events by simp
  from classification_retries[of fresh_world 1 flaky_stub "[]"] f k1 k2
  have "\<exists>w'. get_categories flaky_stub [] fresh_world
                = (categories_try flaky_stub (llm_calls fresh_world + 1) (categories_prompt []),
                   w')
          \<and> llm_calls w' = llm_calls fresh_world + min (Suc 1) 3
          \<and> calls w' = calls fresh_world
               @ concat (map (categories_events flaky_stub (categories_prompt []))
                           [llm_calls fresh_world ..< llm_calls fresh_world + min (Suc 1) 3])"
    by simp
  then have e: "\<exists>w'. get_categories flaky_stub [] fresh_world
               = (Inr [JObj [(''category_name'', JStr ''About Us'')]], w')
        \<and> llm_calls w' = 2 \<and> calls w' = [Wait, Invoke, Backoff, Wait, Invoke, Record]"
    unfolding flaky_events by (simp add: z numeral_2_eq_2)
  from a b c d e show ?thesis by blast
qed

text \<open>
  The claim as stated fails on an answer without any bracket or brace: the response counts
  as a success, and the empty value is returned after one call and no \<open>backoff\<close>.
\<close>

theorem no_fragment_counterexample:
  "fst (get_categories prose_stub [] fresh_world) = Inr []
   \<and> calls (snd (get_categories prose_stub [] fresh_world)) = [Wait, Invoke, Record]
   \<and> fst (get_site_type prose_stub [] fresh_world) = Inr (JStr ''other'')
   \<and> calls (snd (get_site_type prose_stub [] fresh_world)) = [Wait, Invoke, Record]"
  by code_simp

section \<open>Quota errors\<close>

lemma quota_run:
  "get_categories quota_stub [] fresh_world =
     (Inr [],
      \<lparr>clock = 17 / 2,
       rate_limiter = \<lparr>max_requests_per_minute = 5, requests_timestamps = [],
          quota_exceeded = False, quota_reset_time = None, max_backoff = 60,
          error_count = 3\<rparr>,
       llm_calls = 3, draws = 3,
       calls = [Wait, Invoke, Backoff, Wait, Invoke, Backoff, Wait, Invoke, Backoff],
       slept = [3 / 2, 5 / 2, 9 / 2], open_pages = 0\<rparr>)"
  by code_simp

text \<open>
  Claim C1 says that a quota error of the inference collaborator enters the cooldown of the
  limiter. The except branch of \<open>get_categories\<close> calls \<open>backoff\<close> only, and
  \<open>handle_quota_error\<close> is never called: with a collaborator that raises a quota error
  on every call, the three attempts are consumed and followed by the backoff delays, and
  afterwards the quota flag is still unset and there is no cooldown expiry.
\<close>

theorem quota_error_only_backs_off:
  "fst (get_categories quota_stub [] fresh_world) = Inr []
   \<and> calls (snd (get_categories quota_stub [] fresh_world)) = three_failed_attempts
   \<and> slept (snd (get_categories quota_stub [] fresh_world)) = [3 / 2, 5 / 2, 9 / 2]
   \<and> quota_exceeded (rate_limiter (snd (get_categories quota_stub [] fresh_world))) = False
   \<and> quota_reset_time (rate_limiter (snd (get_categories quota_stub [] fresh_world))) = None"
  by (simp add: quota_run three_failed_attempts_def)

section \<open>The page handle\<close>

lemma timeout_run:
  "analyze_url timeout_site ''https://example.com/'' fresh_world =
     (failure ''https://example.com/'' ''Timeout 30000ms exceeded'',
      fresh_world\<lparr>open_pages := 1\<rparr>)"
  by code_simp

lemma good_run:
  "open_pages (snd (analyze_url good_site ''https://example.com/'' fresh_world)) = 0"
  by code_simp

text \<open>
  Claim C8 says that the page handle is closed on every path of \<open>analyze_url\<close>. The
  call of \<open>page.close\<close> stands at the end of the \<open>try\<close> only: when the navigation
  times out the handle that was opened stays open, while the successful run closes its
  handle.
\<close>

theorem page_left_open_on_failure:
  "errors (fst (analyze_url timeout_site ''https://example.com/'' fresh_world))
     = Some ''Timeout 30000ms exceeded''
   \<and> open_pages fresh_world = 0
   \<and> open_pages (snd (analyze_url timeout_site ''https://example.com/'' fresh_world)) = 1
   \<and> open_pages (snd (analyze_url good_site ''https://example.com/'' fresh_world)) = 0"
  by (simp add: timeout_run good_run failure_def) (simp add: fresh_world_def)

section \<open>The result record\<close>

lemma analyze_url_raise:
  "analyze_try S url w = (Inl e, w') \<Longrightarrow> analyze_url S url w = (failure url (str_of e), w')"
  by (simp add: analyze_url_def)

lemma analyze_url_return:
  "analyze_try S url w = (Inr r, w') \<Longrightarrow> analyze_url S url w = (r, w')"
  by (simp add: analyze_url_def)

lemma analyze_try_fetched:
  assumes "fetched S url html"
  shows "analyze_try S url w =
     (case get_categories (infer S) (cleaned S html) (after_fetch w) of
        (Inl e, w3) \<Rightarrow> (Inl e, w3)
      | (Inr categories, w3) \<Rightarrow>
     (case get_site_type (infer S) (cleaned S html) w3 of
        (Inl e, w4) \<Rightarrow> (Inl e, w4)
      | (Inr st, w4) \<Rightarrow>
     (case assemble S (browse S url) html (page_url (browse S url)) categories [] of
        Inl e \<Rightarrow> (Inl e, w4)
      | Inr structured_content \<Rightarrow>
     (case close_raises (browse S url) of
        Some e \<Rightarrow> (Inl e, w4)
      | None \<Rightarrow>
          (Inr \<lparr>URL = page_url (browse S url), site_type = st,
                extracted_web_content = cleaned S html,
                content = structured_content, errors = None\<rparr>,
           w4\<lparr>open_pages := open_pages w4 - 1\<rparr>)))))"
  unfolding cleaned_def after_fetch_def
  using assms
  by (simp add: analyze_try_def fetched_def Let_def)

lemma analyze_try_shape:
  assumes "analyze_try S url w = (Inr r, w')"
  shows "r = failure url ''Invalid URL''
       \<or> (\<exists>st text_out sc. r = \<lparr>URL = page_url (browse S url), site_type = st,
              extracted_web_content = text_out, content = sc, errors = None\<rparr>)"
  using assms
  by (auto simp: analyze_try_def Let_def
        split: sum.splits option.splits if_splits prod.splits)

text \<open>
  Claim C2. For every URL, every behaviour of the collaborators and every state,
  \<open>analyze_url\<close> returns one record, stage by stage: when the URL cannot be parsed, the
  failure record with the exception's description; when its scheme is neither \<open>http\<close> nor
  \<open>https\<close>, the failure record with \<open>Invalid URL\<close>, the state untouched; when opening
  the page, the navigation, the settle delay, reading the markup, one of the two
  classification calls, the assembly or closing the page raises, the failure record with
  that exception's description; and otherwise the success record, with the page's final
  URL, the site type and the content list that were computed, the cleaned text, and no
  error. The failure record has the given URL, the site type \<open>other\<close>, the empty text, the
  empty content list and the description as its error, so the record is always one of the
  two.
\<close>

theorem analyze_url_one_record:
  "(\<forall>e. validate_url (lib S) url = Inl e \<longrightarrow>
        analyze_url S url w = (failure url (str_of e), w))
   \<and> (validate_url (lib S) url = Inr False \<longrightarrow>
        analyze_url S url w = (failure url ''Invalid URL'', w))
   \<and> (\<forall>e. validate_url (lib S) url = Inr True \<and> new_page_raises (browse S url) = Some e \<longrightarrow>
        analyze_url S url w = (failure url (str_of e), w))
   \<and> (\<forall>e. validate_url (lib S) url = Inr True \<and> new_page_raises (browse S url) = None
          \<and> goto_raises (browse S url) = Some e \<longrightarrow>
        analyze_url S url w = (failure url (str_of e), w\<lparr>open_pages := open_pages w + 1\<rparr>))
   \<and> (\<forall>e. validate_url (lib S) url = Inr True \<and> new_page_raises (browse S url) = None
          \<and> goto_raises (browse S url) = None
          \<and> wait_for_timeout_raises (browse S url) = Some e \<longrightarrow>
        analyze_url S url w = (failure url (str_of e), w\<lparr>open_pages := open_pages w + 1\<rparr>))
   \<and> (\<forall>e. validate_url (lib S) url = Inr True \<and> new_page_raises (browse S url) = None
          \<and> goto_raises (browse S url) = None
          \<and> wait_for_timeout_raises (browse S url) = None
          \<and> page_content (browse S url) = Inl e \<longrightarrow>
        analyze_url S url w = (failure url (str_of e), after_fetch w))
   \<and> (\<forall>html e w3. fetched S url html
          \<and> get_categories (infer S) (cleaned S html) (after_fetch w) = (Inl e, w3) \<longrightarrow>
        analyze_url S url w = (failure url (str_of e), w3))
   \<and> (\<forall>html cats w3 e w4. fetched S url html
          \<and> get_categories (infer S) (cleaned S html) (after_fetch w) = (Inr cats, w3)
          \<and> get_site_type (infer S) (cleaned S html) w3 = (Inl e, w4) \<longrightarrow>
        analyze_url S url w = (failure url (str_of e), w4))
   \<and> (\<forall>html cats w3 st w4 e. fetched S url html
          \<and> get_categories (infer S) (cleaned S html) (after_fetch w) = (Inr cats, w3)
          \<and> get_site_type (infer S) (cleaned S html) w3 = (Inr st, w4)
          \<and> assemble S (browse S url) html (page_url (browse S url)) cats [] = Inl e \<longrightarrow>
        analyze_url S url w = (failure url (str_of e), w4))
   \<and> (\<forall>html cats w3 st w4 sc e. fetched S url html
          \<and> get_categories (infer S) (cleaned S html) (after_fetch w) = (Inr cats, w3)
          \<and> get_site_type (infer S) (cleaned S html) w3 = (Inr st, w4)
          \<and> assemble S (browse S url) html (page_url (browse S url)) cats [] = Inr sc
          \<and> close_raises (browse S url) = Some e \<longrightarrow>
        analyze_url S url w = (failure url (str_of e), w4))
   \<and> (\<forall>html cats w3 st w4 sc. fetched S url html
          \<and> get_categories (infer S) (cleaned S html) (after_fetch w) = (Inr cats, w3)
          \<and> get_site_type (infer S) (cleaned S html) w3 = (Inr st, w4)
          \<and> assemble S (browse S url) html (page_url (browse S url)) cats [] = Inr sc
          \<and> close_raises (browse S url) = None \<longrightarrow>
        analyze_url S url w =
          (\<lparr>URL = page_url (browse S url), site_type = st,
            extracted_web_content = cleaned S html, content = sc, errors = None\<rparr>,
           w4\<lparr>open_pages := open_pages w4 - 1\<rparr>))
   \<and> ((\<exists>st text_out sc. fst (analyze_url S url w) =
          \<lparr>URL = page_url (browse S url), site_type = st, extracted_web_content = text_out,
           content = sc, errors = None\<rparr>)
      \<or> (\<exists>msg. fst (analyze_url S url w) =
          \<lparr>URL = url, site_type = JStr ''other'', extracted_web_content = [], content = [],
           errors = Some msg\<rparr>))"
proof -
  have s1: "analyze_url S url w = (failure url (str_of e), w)"
    if "validate_url (lib S) url = Inl e" for e
    using that by (simp add: analyze_url_def analyze_try_def)
  have s2: "analyze_url S url w = (failure url ''Invalid URL'', w)"
    if "validate_url (lib S) url = Inr False"
    using that by (simp add: analyze_url_def analyze_try_def)
  have s3: "analyze_url S url w = (failure url (str_of e), w)"
    if "validate_url (lib S) url = Inr True" "new_page_raises (browse S url) = Some e" for e
    using that by (simp add: analyze_url_def analyze_try_def)
  have s4: "analyze_url S url w = (failure url (str_of e), w\<lparr>open_pages := open_pages w + 1\<rparr>)"
    if "validate_url (lib S) url = Inr True" "new_page_raises (browse S url) = None"
      "goto_raises (browse S url) = Some e" for e
    using that by (simp add: analyze_url_def analyze_try_def)
  have s5: "analyze_url S url w = (failure url (str_of e), w\<lparr>open_pages := open_pages w + 1\<rparr>)"
    if "validate_url (lib S) url = Inr True" "new_page_raises (browse S url) = None"
      "goto_raises (browse S url) = None" "wait_for_timeout_raises (browse S url) = Some e"
    for e
    using that by (simp add: analyze_url_def analyze_try_def)
  have s6: "analyze_url S url w = (failure url (str_of e), after_fetch w)"
    if "validate_url (lib S) url = Inr True" "new_page_raises (browse S url) = None"
      "goto_raises (browse S url) = None" "wait_for_timeout_raises (browse S url) = None"
      "page_content (browse S url) = Inl e" for e
    using that by (simp add: analyze_url_def analyze_try_def after_fetch_def)
  have s7: "analyze_url S url w = (failure url (str_of e), w3)"
    if "fetched S url html"
      "get_categories (infer S) (cleaned S html) (after_fetch w) = (Inl e, w3)" for html e w3
    by (rule analyze_url_raise) (simp add: analyze_try_fetched[OF that(1)] that(2))
  have s8: "analyze_url S url w = (failure url (str_of e), w4)"
    if "fetched S url html"
      "get_categories (infer S) (cleaned S html) (after_fetch w) = (Inr cats, w3)"
      "get_site_type (infer S) (cleaned S html) w3 = (Inl e, w4)" for html cats w3 e w4
    by (rule analyze_url_raise) (simp add: analyze_try_fetched[OF that(1)] that(2,3))
  have s9: "analyze_url S url w = (failure url (str_of e), w4)"
    if "fetched S url html"
      "get_categories (infer S) (cleaned S html) (after_fetch w) = (Inr cats, w3)"
      "get_site_type (infer S) (cleaned S html) w3 = (Inr st, w4)"
      "assemble S (browse S url) html (page_url (browse S url)) cats [] = Inl e"
    for html cats w3 st w4 e
    by (rule analyze_url_raise) (simp add: analyze_try_fetched[OF that(1)] that(2,3,4))
  have s10: "analyze_url S url w = (failure url (str_of e), w4)"
    if "fetched S url html"
      "get_categories (infer S) (cleaned S html) (after_fetch w) = (Inr cats, w3)"
      "get_site_type (infer S) (cleaned S html) w3 = (Inr st, w4)"
      "assemble S (browse S url) html (page_url (browse S url)) cats [] = Inr sc"
      "close_raises (browse S url) = Some e"
    for html cats w3 st w4 sc e
    by (rule analyze_url_raise) (simp add: analyze_try_fetched[OF that(1)] that(2,3,4,5))
  have s11: "analyze_url S url w =
          (\<lparr>URL = page_url (browse S url), site_type = st,
            extracted_web_content = cleaned S html, content = sc, errors = None\<rparr>,
           w4\<lparr>open_pages := open_pages w4 - 1\<rparr>)"
    if "fetched S url html"
      "get_categories (infer S) (cleaned S html) (after_fetch w) = (Inr cats, w3)"
      "get_site_type (infer S) (cleaned S html) w3 = (Inr st, w4)"
      "assemble S (browse S url) html (page_url (browse S url)) cats [] = Inr sc"
      "close_raises (browse S url) = None"
    for html cats w3 st w4 sc
    by (rule analyze_url_return) (simp add: analyze_try_fetched[OF that(1)] that(2,3,4,5))
  have s12: "(\<exists>st text_out sc. fst (analyze_url S url w) =
          \<lparr>URL = page_url (browse S url), site_type = st, extracted_web_content = text_out,
           content = sc, errors = None\<rparr>)
      \<or> (\<exists>msg. fst (analyze_url S url w) =
          \<lparr>URL = url, site_type = JStr ''other'', extracted_web_content = [], content = [],
           errors = Some msg\<rparr>)"
  proof -
    obtain out w' where t: "analyze_try S url w = (out, w')" by (cases "analyze_try S url w")
    show ?thesis
    proof (cases out)
      case (Inl e)
      with t show ?thesis by (simp add: analyze_url_def failure_def)
    next
      case (Inr r)
      with t have "fst (analyze_url S url w) = r" by (simp add: analyze_url_def)
      with analyze_try_shape[of S url w r w'] t Inr show ?thesis
        by (auto simp: failure_def)
    qed
  qed
  show ?thesis
    apply (intro conjI allI impI)
    subgoal by (rule s1)
    subgoal by (rule s2)
    subgoal by (rule s3) simp_all
    subgoal by (rule s4) simp_all
    subgoal by (rule s5) simp_all
    subgoal by (rule s6) simp_all
    subgoal by (elim conjE, rule s7)
    subgoal by (elim conjE, rule s8)
    subgoal by (elim conjE, rule s9)
    subgoal by (elim conjE, rule s10)
    subgoal by (elim conjE, rule s11)
    subgoal by (rule s12)
    done
qed

theorem analyze_url_one_record_witness:
  "analyze_url good_site ''ftp://example.com/'' fresh_world
     = (failure ''ftp://example.com/'' ''Invalid URL'', fresh_world)
   \<and> analyze_url timeout_site ''https://example.com/'' fresh_world
     = (failure ''https://example.com/'' ''Timeout 30000ms exceeded'',
        fresh_world\<lparr>open_pages := open_pages fresh_world + 1\<rparr>)
   \<and> analyze_url good_site ''https://example.com/''
        (fresh_world\<lparr>rate_limiter := new_throttle 0 60\<rparr>)
     = (failure ''https://example.com/'' ''min() arg is an empty sequence'',
        (after_fetch (fresh_world\<lparr>rate_limiter := new_throttle 0 60\<rparr>))\<lparr>calls := [Wait]\<rparr>)
   \<and> analyze_url good_site ''https://example.com/'' fresh_world
     = (\<lparr>URL = ''https://example.com/'', site_type = JStr ''company'',
         extracted_web_content = ''About Us We build things.'',
         content = [(JStr ''About Us'', ''We build things.'', [])], errors = None\<rparr>,
        \<lparr>clock = 4,
         rate_limiter = (new_throttle 5 60)\<lparr>requests_timestamps := [3, 4]\<rparr>,
         llm_calls = 2, draws = 0, calls = [Wait, Invoke, Record, Wait, Invoke, Record],
         slept = [], open_pages = 0\<rparr>)"
proof -
  let ?u = "''https://example.com/''"
  let ?html = "''<h2>About Us</h2><p>We build things.</p>''"
  let ?cats = "[JObj [(''category_name'', JStr ''About Us''), (''text'', JStr [])],
                JObj [(''category_name'', JStr ''Other''), (''text'', JStr [])]]"
  let ?w0 = "fresh_world\<lparr>rate_limiter := new_throttle 0 60\<rparr>"
  let ?w3 = "\<lparr>clock = 3,
         rate_limiter = (new_throttle 5 60)\<lparr>requests_timestamps := [3]\<rparr>,
         llm_calls = 1, draws = 0, calls = [Wait, Invoke, Record],
         slept = [], open_pages = 1\<rparr>"
  let ?w4 = "\<lparr>clock = 4,
         rate_limiter = (new_throttle 5 60)\<lparr>requests_timestamps := [3, 4]\<rparr>,
         llm_calls = 2, draws = 0, calls = [Wait, Invoke, Record, Wait, Invoke, Record],
         slept = [], open_pages = 1\<rparr>"
  have invalid: "validate_url (lib good_site) ''ftp://example.com/'' = Inr False"
    by code_simp
  have a: "analyze_url good_site ''ftp://example.com/'' fresh_world
     = (failure ''ftp://example.com/'' ''Invalid URL'', fresh_world)"
    using analyze_url_one_record[of good_site "''ftp://example.com/''" fresh_world] invalid
    by (elim conjE) simp
  have valid: "validate_url (lib timeout_site) ?u = Inr True" by code_simp
  have opened: "new_page_raises (browse timeout_site ?u) = None" by code_simp
  have nav: "goto_raises (browse timeout_site ?u)
     = Some (NavigationError ''Timeout 30000ms exceeded'')" by code_simp
  have b: "analyze_url timeout_site ?u fresh_world
     = (failure ?u ''Timeout 30000ms exceeded'',
        fresh_world\<lparr>open_pages := open_pages fresh_world + 1\<rparr>)"
    using analyze_url_one_record[of timeout_site ?u fresh_world] valid opened nav
    by (elim conjE) simp
  have f: "fetched good_site ?u ?html" by code_simp
  have no_slot: "get_categories (infer good_site) (cleaned good_site ?html) (after_fetch ?w0)
     = (Inl (ValueError ''min() arg is an empty sequence''), (after_fetch ?w0)\<lparr>calls := [Wait]\<rparr>)"
    by code_simp
  have c: "analyze_url good_site ?u ?w0
     = (failure ?u ''min() arg is an empty sequence'', (after_fetch ?w0)\<lparr>calls := [Wait]\<rparr>)"
    using analyze_url_one_record[of good_site ?u ?w0, THEN conjunct2, THEN conjunct2,
        THEN conjunct2, THEN conjunct2, THEN conjunct2, THEN conjunct2, THEN conjunct1,
        rule_format, OF conjI[OF f no_slot]]
    by simp
  have cats: "get_categories (infer good_site) (cleaned good_site ?html) (after_fetch fresh_world)
     = (Inr ?cats, ?w3)"
    by code_simp
  have st: "get_site_type (infer good_site) (cleaned good_site ?html) ?w3
     = (Inr (JStr ''company''), ?w4)"
    by code_simp
  have content: "assemble good_site (browse good_site ?u) ?html
       (page_url (browse good_site ?u)) ?cats []
     = Inr [(JStr ''About Us'', ''We build things.'', [])]"
    by code_simp
  have closes: "close_raises (browse good_site ?u) = None" by code_simp
  have final: "page_url (browse good_site ?u) = ?u" by code_simp
  have text_in: "cleaned good_site ?html = ''About Us We build things.''" by code_simp
  have d: "analyze_url good_site ?u fresh_world
     = (\<lparr>URL = ?u, site_type = JStr ''company'',
         extracted_web_content = ''About Us We build things.'',
         content = [(JStr ''About Us'', ''We build things.'', [])], errors = None\<rparr>,
        ?w4\<lparr>open_pages := open_pages ?w4 - 1\<rparr>)"
    using analyze_url_one_record[of good_site ?u fresh_world, THEN conjunct2, THEN conjunct2,
        THEN conjunct2, THEN conjunct2, THEN conjunct2, THEN conjunct2, THEN conjunct2,
        THEN conjunct2, THEN conjunct2, THEN conjunct2, THEN conjunct1,
        rule_format, OF conjI[OF f conjI[OF cats conjI[OF st conjI[OF content closes]]]]]
    by (simp only: final text_in)
  from a b c d show ?thesis by simp
qed

end
